theory Spec2Isabelle
  imports Main "HOL-Library.Word"
begin

section \<open>Bytes, strings and the library functions the trace sanitizer calls\<close>

text \<open>
  A Go \<open>[]byte\<close> and a Go \<open>string\<close> are both sequences of bytes; a \<open>string\<close> need
  not be valid UTF-8. Both are byte lists here, and a nil slice is the empty list (the
  functions below never tell the two apart).
\<close>

type_synonym byte = "8 word"
type_synonym bytes = "byte list"

subsection \<open>unicode/utf8\<close>

definition RuneSelf :: byte where
  "RuneSelf = 0x80"

text \<open>
  The tables \<open>first\<close> and \<open>acceptRanges\<close> of unicode/utf8, read together: for a
  lead byte, the length of the sequence it starts and the range accepted for the second
  byte; \<open>None\<close> is the table entry \<open>xx\<close> (an illegal lead byte).
\<close>

definition first_byte :: "byte \<Rightarrow> (nat \<times> byte \<times> byte) option" where
  "first_byte c =
     (if 0xC2 \<le> c \<and> c \<le> 0xDF then Some (2, 0x80, 0xBF)
      else if c = 0xE0 then Some (3, 0xA0, 0xBF)
      else if 0xE1 \<le> c \<and> c \<le> 0xEC then Some (3, 0x80, 0xBF)
      else if c = 0xED then Some (3, 0x80, 0x9F)
      else if 0xEE \<le> c \<and> c \<le> 0xEF then Some (3, 0x80, 0xBF)
      else if c = 0xF0 then Some (4, 0x90, 0xBF)
      else if 0xF1 \<le> c \<and> c \<le> 0xF3 then Some (4, 0x80, 0xBF)
      else if c = 0xF4 then Some (4, 0x80, 0x8F)
      else None)"

text \<open>
  The checks \<open>utf8.Valid\<close> and \<open>utf8.DecodeRune\<close> make on a sequence that starts
  with a byte \<open>\<ge> RuneSelf\<close>: the number of bytes of the well-formed encoding at the
  head of \<open>p\<close>, or 0 when there is none (illegal lead byte, too few bytes, or a
  continuation byte out of range).
\<close>

definition multibyte :: "bytes \<Rightarrow> nat" where
  "multibyte p =
     (case p of
        [] \<Rightarrow> 0
      | c # cs \<Rightarrow>
          (case first_byte c of
             None \<Rightarrow> 0
           | Some (n, lo, hi) \<Rightarrow>
               if length p < n then 0
               else if p ! 1 < lo \<or> hi < p ! 1 then 0
               else if n = 2 then 2
               else if p ! 2 < 0x80 \<or> 0xBF < p ! 2 then 0
               else if n = 3 then 3
               else if p ! 3 < 0x80 \<or> 0xBF < p ! 3 then 0
               else 4))"

text \<open>The width \<open>utf8.DecodeRune\<close> returns: 0 for no input, 1 for an ASCII byte and
  for an ill-formed sequence (with \<open>RuneError\<close>), else the length of the encoding.\<close>

definition DecodeRune_size :: "bytes \<Rightarrow> nat" where
  "DecodeRune_size p =
     (case p of
        [] \<Rightarrow> 0
      | c # cs \<Rightarrow> if c < RuneSelf then 1
                 else if multibyte p = 0 then 1
                 else multibyte p)"

function utf8_Valid :: "bytes \<Rightarrow> bool" where
  "utf8_Valid [] = True"
| "utf8_Valid (c # cs) =
     (if c < RuneSelf then utf8_Valid cs
      else if multibyte (c # cs) = 0 then False
      else utf8_Valid (drop (multibyte (c # cs)) (c # cs)))"
  by pat_completeness auto
termination
  by (relation "measure length") auto

subsection \<open>bytes.ToValidUTF8 and bytes.ReplaceAll\<close>

lemma DecodeRune_size_pos: "0 < DecodeRune_size (c # cs)"
  by (simp add: DecodeRune_size_def)

text \<open>
  The loop of \<open>bytes.ToValidUTF8\<close>: \<open>invalid\<close> says that the previous byte was part
  of an ill-formed run, so that each run is replaced once. The result is the part of the
  output buffer written from here on.
\<close>

function ToValidUTF8_from :: "bytes \<Rightarrow> bool \<Rightarrow> bytes \<Rightarrow> bytes" where
  "ToValidUTF8_from replacement invalid [] = []"
| "ToValidUTF8_from replacement invalid (c # cs) =
     (if c < RuneSelf then c # ToValidUTF8_from replacement False cs
      else if DecodeRune_size (c # cs) = 1
      then (if invalid then [] else replacement) @ ToValidUTF8_from replacement True cs
      else take (DecodeRune_size (c # cs)) (c # cs)
           @ ToValidUTF8_from replacement False (drop (DecodeRune_size (c # cs)) (c # cs)))"
  by pat_completeness auto
termination
  by (relation "measure (\<lambda>(r, i, s). length s)") (auto simp: DecodeRune_size_pos)

definition ToValidUTF8 :: "bytes \<Rightarrow> bytes \<Rightarrow> bytes" where
  "ToValidUTF8 s replacement = ToValidUTF8_from replacement False s"

text \<open>
  \<open>bytes.ReplaceAll(s, old, new)\<close> for a pattern \<open>old\<close> of one byte, the only way
  the program calls it: every occurrence of the byte is replaced.
\<close>

definition ReplaceAll_byte :: "bytes \<Rightarrow> byte \<Rightarrow> bytes \<Rightarrow> bytes" where
  "ReplaceAll_byte s old new = concat (map (\<lambda>b. if b = old then new else [b]) s)"

text \<open>
  \<open>bytes.SplitN(s, sep, 2)\<close> for a non-empty separator: \<open>cut\<close> finds the first
  occurrence of \<open>sep\<close> and gives what is before and after it.
\<close>

definition HasPrefix :: "bytes \<Rightarrow> bytes \<Rightarrow> bool" where
  "HasPrefix s pre = (take (length pre) s = pre)"

fun cut :: "bytes \<Rightarrow> bytes \<Rightarrow> (bytes \<times> bytes) option" where
  "cut [] sep = (if sep = [] then Some ([], []) else None)"
| "cut (c # cs) sep =
     (if HasPrefix (c # cs) sep then Some ([], drop (length sep) (c # cs))
      else case cut cs sep of
             None \<Rightarrow> None
           | Some (before, after) \<Rightarrow> Some (c # before, after))"

definition SplitN2 :: "bytes \<Rightarrow> bytes \<Rightarrow> bytes list" where
  "SplitN2 s sep = (case cut s sep of None \<Rightarrow> [s] | Some (before, after) \<Rightarrow> [before, after])"

section \<open>Errors, requests, responses and body streams\<close>

text \<open>
  A Go error is a value with a message. \<open>Errorf\<close> is an error this program makes with
  \<open>errors.Errorf\<close>, holding the formatted message; \<open>EOF\<close> is \<open>io.EOF\<close>;
  \<open>ErrBodyReadAfterClose\<close> is what net/http reports for a read of a closed body;
  \<open>Failure\<close> is any error of a collaborator (transport, access policy, dump).
\<close>

datatype error = EOF | ErrBodyReadAfterClose | Errorf string | Failure string

text \<open>A call either returns or panics (a nil dereference).\<close>

datatype 'a outcome = Panic | Return 'a

text \<open>The verb \<open>%d\<close> of \<open>Errorf\<close>: an integer in decimal.\<close>

definition digit :: "nat \<Rightarrow> char" where
  "digit d = ''0123456789'' ! d"

function decimal :: "nat \<Rightarrow> string" where
  "decimal n =
     (if n < 10 then [digit n]
      else decimal (n div 10) @ [digit (n mod 10)])"
  by pat_completeness auto
termination
  by (relation "measure id") auto

declare decimal.simps [simp del]

definition Itoa :: "int \<Rightarrow> string" where
  "Itoa i = (if i < 0 then CHR ''-'' # decimal (nat (- i)) else decimal (nat i))"

type_synonym duration = int
type_synonym instant = int
type_synonym addr = nat

text \<open>
  Of a request the program reads \<open>request.URL.Hostname()\<close>, and hands the rest to its
  collaborators. \<open>Hostname\<close> is that host name.
\<close>

record request =
  Method :: string
  URL :: string
  Hostname :: string

text \<open>
  A response refers to its body stream, an object with state: \<open>Body\<close> is the address
  of the stream in the store. An address the store does not hold stands for a nil
  \<open>Body\<close>.
\<close>

record response =
  StatusCode :: int
  Body :: addr

text \<open>
  A body stream: the bytes not read yet, what a read reports once they are exhausted
  (\<open>EOF\<close>, or the failure that cuts the stream short), and whether \<open>Close\<close> was
  called.
\<close>

record stream =
  pending :: bytes
  ending :: error
  closed :: bool

text \<open>
  \<open>io.Reader\<close> values the program reads from: a response body, and the
  \<open>io.LimitedReader\<close> that \<open>io.LimitReader(r, n)\<close> makes, with its field
  \<open>N\<close> (an \<open>int64\<close>) of bytes remaining.
\<close>

datatype reader = BodyReader stream | LimitedReader reader "64 word"

text \<open>
  \<open>Read(p)\<close> with \<open>len(p) = k\<close>. A body delivers the bytes asked for while it has
  any; a \<open>LimitedReader\<close> reports \<open>EOF\<close> once \<open>N \<le> 0\<close>, without reading, and
  else asks its reader for at most \<open>N\<close> bytes and subtracts what it got.
\<close>

fun Read :: "nat \<Rightarrow> reader \<Rightarrow> (bytes \<times> error option) \<times> reader" where
  "Read k (BodyReader s) =
     (if closed s then (([], Some ErrBodyReadAfterClose), BodyReader s)
      else if pending s = [] then (([], Some (ending s)), BodyReader s)
      else ((take k (pending s), None), BodyReader (s\<lparr>pending := drop k (pending s)\<rparr>)))"
| "Read k (LimitedReader r n) =
     (if sint n \<le> 0 then (([], Some EOF), LimitedReader r n)
      else
        let k' = (if sint n < int k then nat (sint n) else k);
            ((p, err), r') = Read k' r
        in ((p, err), LimitedReader r' (n - of_nat (length p))))"

fun underlying :: "reader \<Rightarrow> stream" where
  "underlying (BodyReader s) = s"
| "underlying (LimitedReader r n) = underlying r"

fun remaining_N :: "reader \<Rightarrow> 64 word" where
  "remaining_N (LimitedReader r n) = n"
| "remaining_N (BodyReader s) = 0"

lemma Read_progress:
  "Read k r = ((p, None), r') \<Longrightarrow> 0 < k \<Longrightarrow>
   length (pending (underlying r')) < length (pending (underlying r))"
proof (induction r arbitrary: k p r')
  case (BodyReader s)
  then show ?case by (auto split: if_splits)
next
  case (LimitedReader r n)
  show ?case
  proof (cases "sint n \<le> 0")
    case True
    with LimitedReader.prems show ?thesis by simp
  next
    case False
    define k' where "k' = (if sint n < int k then nat (sint n) else k)"
    obtain q e r0 where rd: "Read k' r = ((q, e), r0)" by (metis prod.exhaust)
    from LimitedReader.prems False rd
    have "e = None" and "r' = LimitedReader r0 (n - of_nat (length q))"
      by (auto simp: k'_def Let_def)
    moreover have "0 < k'" using False LimitedReader.prems(2) by (simp add: k'_def)
    ultimately show ?thesis using LimitedReader.IH[of k' q r0] rd by simp
  qed
qed

text \<open>
  \<open>io.ReadAll\<close>: read until an error; \<open>EOF\<close> is the normal end and is not
  returned as an error. The buffer it offers to \<open>Read\<close> is never empty (512 bytes at
  first).
\<close>

definition bufsize :: nat where
  "bufsize = 512"

function ReadAll_from :: "reader \<Rightarrow> bytes \<Rightarrow> (bytes \<times> error option) \<times> reader" where
  "ReadAll_from r b =
     (case Read bufsize r of
        ((p, Some err), r') \<Rightarrow> ((b @ p, if err = EOF then None else Some err), r')
      | ((p, None), r') \<Rightarrow> ReadAll_from r' (b @ p))"
  by pat_completeness auto
termination
  by (relation "measure (\<lambda>(r, b). length (pending (underlying r)))")
     (auto simp: bufsize_def dest!: Read_progress [OF sym])

declare ReadAll_from.simps [simp del]

definition ReadAll :: "reader \<Rightarrow> (bytes \<times> error option) \<times> reader" where
  "ReadAll r = ReadAll_from r []"

section \<open>The world outside the program\<close>

text \<open>
  The store of body streams, and whatever else the collaborators keep (the transport's
  connections, a test double's script, the clock): \<open>rest\<close>, of a type the program
  never looks into.
\<close>

record 'x world =
  streams :: "addr \<rightharpoonup> stream"
  rest :: 'x

text \<open>
  The collaborators, none of them in the sources: each is a function of the world. A
  \<open>Requestor\<close> is \<open>currentRequestor.Do(client, \<cdot>)\<close>, the client being part of it.
\<close>

type_synonym 'x Requestor =
  "request \<Rightarrow> 'x world \<Rightarrow> (response option \<times> error option) \<times> 'x world"

record 'x RetryConfig =
  MaxRetries :: int
  Backoff :: "int \<Rightarrow> 'x world \<Rightarrow> duration \<times> 'x world"
  ShouldRetry :: "request \<Rightarrow> response option \<Rightarrow> duration \<Rightarrow> 'x world \<Rightarrow> bool \<times> 'x world"

record 'x AccessConfig =
  Allow :: "request \<Rightarrow> 'x world \<Rightarrow> (bool \<times> error option) \<times> 'x world"

record 'x env =
  currentRequestor :: "'x Requestor"
  DumpRequestOut :: "request \<Rightarrow> bytes \<times> error option"
  DumpResponse :: "response \<Rightarrow> bytes \<times> error option"
  Now :: "'x world \<Rightarrow> instant \<times> 'x world"

text \<open>
  An execution: the world, and what an observer of the program counts, which no
  collaborator can change: the calls of the Requestor and the sleeps.
\<close>

record 'x exec =
  world :: "'x world"
  invocations :: nat
  sleeps :: "duration list"

definition lift :: "('x world \<Rightarrow> 'a \<times> 'x world) \<Rightarrow> 'x exec \<Rightarrow> 'a \<times> 'x exec" where
  "lift f e = (let (a, w) = f (world e) in (a, e\<lparr>world := w\<rparr>))"

definition dispatch :: "'x env \<Rightarrow> request \<Rightarrow> 'x exec \<Rightarrow> (response option \<times> error option) \<times> 'x exec" where
  "dispatch env request e =
     (let (r, w) = currentRequestor env request (world e)
      in (r, e\<lparr>world := w, invocations := invocations e + 1\<rparr>))"

definition Sleep :: "duration \<Rightarrow> 'x exec \<Rightarrow> 'x exec" where
  "Sleep d e = e\<lparr>sleeps := sleeps e @ [d]\<rparr>"

section \<open>Do: the access check and the retry loop\<close>

function do_loop ::
  "'x env \<Rightarrow> request \<Rightarrow> 'x RetryConfig option \<Rightarrow> int \<Rightarrow> 'x exec
   \<Rightarrow> (response option \<times> int \<times> error option) \<times> 'x exec" where
  "do_loop env request retries retry e =
     (case dispatch env request e of
        ((response, err), e1) \<Rightarrow>
          (case retries of
             None \<Rightarrow> ((response, retry, err), e1)
           | Some rc \<Rightarrow>
               if retry < MaxRetries rc then
                 (case lift (Backoff rc retry) e1 of
                    (backoff, e2) \<Rightarrow>
                      (case lift (ShouldRetry rc request response backoff) e2 of
                         (again, e3) \<Rightarrow>
                           if again then do_loop env request retries (retry + 1) (Sleep backoff e3)
                           else ((response, retry, err), e3)))
               else ((response, retry, err), e1)))"
  by pat_completeness auto
termination
  by (relation "measure (\<lambda>(env, request, retries, retry, e).
        case retries of None \<Rightarrow> 0 | Some rc \<Rightarrow> nat (MaxRetries rc - retry))") auto

declare do_loop.simps [simp del]

definition do ::
  "'x env \<Rightarrow> request \<Rightarrow> 'x RetryConfig option \<Rightarrow> 'x AccessConfig option \<Rightarrow> 'x exec
   \<Rightarrow> (response option \<times> int \<times> error option) \<times> 'x exec" where
  "do env request retries access e =
     (case access of
        None \<Rightarrow> do_loop env request retries 0 e
      | Some a \<Rightarrow>
          (case lift (Allow a request) e of
             ((allowed, err), e0) \<Rightarrow>
               if err \<noteq> None then ((None, 0, err), e0)
               else if \<not> allowed
               then ((None, 0, Some (Errorf (''request to '' @ Hostname request @ '' denied''))), e0)
               else do_loop env request retries 0 e0))"

definition Do ::
  "'x env \<Rightarrow> request \<Rightarrow> 'x RetryConfig option \<Rightarrow> 'x AccessConfig option \<Rightarrow> 'x exec
   \<Rightarrow> (response option \<times> error option) \<times> 'x exec" where
  "Do env request retries access e =
     (case do env request retries access e of ((r, n, err), e') \<Rightarrow> ((r, err), e'))"

section \<open>Reading a response body under a limit\<close>

text \<open>
  \<open>maxBodyBytes\<close> is a Go \<open>int\<close>, 64 bits wide on the 64-bit platforms, so that
  \<open>int64(maxBodyBytes)+1\<close> wraps around at the largest value. A nil \<open>Body\<close>
  makes the deferred \<open>response.Body.Close()\<close> panic. The reader that
  \<open>io.LimitReader\<close> made is a \<open>LimitedReader\<close>, so the type assertion of the
  source holds and \<open>remaining_N\<close> reads its field \<open>N\<close>. The deferred \<open>Close\<close>
  runs on every return: the stream is written back closed.
\<close>

definition readBody ::
  "response \<Rightarrow> 64 word \<Rightarrow> 'x world \<Rightarrow> (bytes \<times> error option) outcome \<times> 'x world" where
  "readBody response maxBodyBytes w =
     (case streams w (Body response) of
        None \<Rightarrow> (Panic, w)
      | Some s \<Rightarrow>
          (case
             (if 0 < sint maxBodyBytes then
                (case ReadAll (LimitedReader (BodyReader s) (maxBodyBytes + 1)) of
                   ((bodyBytes, err), bodyReader) \<Rightarrow>
                     if err \<noteq> None then (([], err), bodyReader)
                     else if sint (remaining_N bodyReader) \<le> 0
                     then (([], Some (Errorf (''webhook response body exceeds ''
                                  @ Itoa (sint maxBodyBytes) @ '' bytes limit''))), bodyReader)
                     else ((bodyBytes, None), bodyReader))
              else ReadAll (BodyReader s))
           of (result, r) \<Rightarrow>
             (Return result,
              w\<lparr>streams := (streams w)(Body response \<mapsto> (underlying r)\<lparr>closed := True\<rparr>)\<rparr>)))"

text \<open>The error \<open>readBody\<close> makes for the limit \<open>m\<close>.\<close>

definition exceeds :: "64 word \<Rightarrow> error" where
  "exceeds m = Errorf (''webhook response body exceeds '' @ Itoa (sint m) @ '' bytes limit'')"

definition dumpResponse ::
  "'x env \<Rightarrow> response option \<Rightarrow> 64 word \<Rightarrow> 'x world
   \<Rightarrow> (bytes \<times> bytes \<times> error option) outcome \<times> 'x world" where
  "dumpResponse env response maxBodyBytes w =
     (case response of
        None \<Rightarrow> (Panic, w)
      | Some resp \<Rightarrow>
          (case DumpResponse env resp of
             (responseTrace, err) \<Rightarrow>
               if err \<noteq> None then (Return ([], [], err), w)
               else
                 (case readBody resp maxBodyBytes w of
                    (Panic, w') \<Rightarrow> (Panic, w')
                  | (Return (responseBody, err), w') \<Rightarrow>
                      if err \<noteq> None then (Return (responseTrace, [], err), w')
                      else (Return (responseTrace, responseBody, None), w'))))"

section \<open>The trace and its sanitized renderings\<close>

record Trace =
  Request :: request
  RequestTrace :: bytes
  Response :: "response option"
  ResponseTrace :: bytes
  ResponseBody :: bytes
  StartTime :: instant
  EndTime :: instant
  Retries :: int


text \<open>The replacement character U+FFFD in UTF-8, the literal in the source.\<close>

definition replacement_char :: bytes where
  "replacement_char = [0xEF, 0xBF, 0xBD]"

definition crlfcrlf :: bytes where
  "crlfcrlf = [0x0D, 0x0A, 0x0D, 0x0A]"

definition replaceNullChars :: "bytes \<Rightarrow> bytes" where
  "replaceNullChars b = ReplaceAll_byte b 0 replacement_char"

definition santizedTrace :: "bytes \<Rightarrow> bytes \<Rightarrow> bytes \<Rightarrow> bytes" where
  "santizedTrace header body bodyPlaceHolder =
     replaceNullChars (ToValidUTF8 header replacement_char)
     @ (if utf8_Valid body then replaceNullChars body else bodyPlaceHolder)"


definition SanitizedRequest :: "Trace \<Rightarrow> bytes \<Rightarrow> bytes" where
  "SanitizedRequest t placeholder =
     (let parts = SplitN2 (RequestTrace t) crlfcrlf;
          headers = parts ! 0 @ crlfcrlf;
          body = (if 1 < length parts then parts ! 1 else [])
      in santizedTrace headers body placeholder)"

definition SanitizedResponse :: "Trace \<Rightarrow> bytes \<Rightarrow> bytes" where
  "SanitizedResponse t placeholder = santizedTrace (ResponseTrace t) (ResponseBody t) placeholder"

section \<open>DoTrace\<close>

definition DoTrace ::
  "'x env \<Rightarrow> request \<Rightarrow> 'x RetryConfig option \<Rightarrow> 'x AccessConfig option \<Rightarrow> 64 word \<Rightarrow> 'x exec
   \<Rightarrow> (Trace option \<times> error option) outcome \<times> 'x exec" where
  "DoTrace env request retries access maxBodyBytes e =
     (case DumpRequestOut env request of
        (requestTrace, err) \<Rightarrow>
          if err \<noteq> None then (Return (None, err), e)
          else
            (case lift (Now env) e of
               (start, e0) \<Rightarrow>
                 (case do env request retries access e0 of
                    ((response, retryCount, err), e1) \<Rightarrow>
                      (case lift (Now env) e1 of
                         (finish, e2) \<Rightarrow>
                           let trace = \<lparr>Request = request, RequestTrace = requestTrace,
                                        Response = None, ResponseTrace = [], ResponseBody = [],
                                        StartTime = start, EndTime = finish,
                                        Retries = retryCount\<rparr>
                           in if err \<noteq> None then (Return (Some trace, err), e2)
                              else
                                (case lift (dumpResponse env response maxBodyBytes) e2 of
                                   (Panic, e3) \<Rightarrow> (Panic, e3)
                                 | (Return (responseTrace, responseBody, err), e3) \<Rightarrow>
                                     (Return (Some (trace\<lparr>Response := response,
                                                            ResponseTrace := responseTrace,
                                                            ResponseBody := responseBody\<rparr>), err),
                                      e3))))))"

section \<open>Concrete inputs\<close>

text \<open>The bytes of an ASCII string literal.\<close>

definition B :: "string \<Rightarrow> bytes" where
  "B s = map of_char s"

definition GET :: request where
  "GET = \<lparr>Method = ''GET'', URL = ''http://example.com/'', Hostname = ''example.com''\<rparr>"

text \<open>A trace with the given request dump, response header dump and response body.\<close>

definition captured :: "bytes \<Rightarrow> bytes \<Rightarrow> bytes \<Rightarrow> Trace" where
  "captured req hdr body =
     \<lparr>Request = GET, RequestTrace = req, Response = Some \<lparr>StatusCode = 200, Body = 0\<rparr>,
      ResponseTrace = hdr, ResponseBody = body, StartTime = 0, EndTime = 1, Retries = 0\<rparr>"


definition ok_headers :: bytes where
  "ok_headers = B ''HTTP/1.1 200 OK'' @ [0x0D, 0x0A] @ B ''Content-Type: image/png'' @ crlfcrlf"

definition get_dump :: bytes where
  "get_dump = B ''GET / HTTP/1.1'' @ [0x0D, 0x0A] @ B ''Host: example.com'' @ crlfcrlf"

text \<open>
  Test doubles. The transport plays a script, one step for each call: a failure, a
  response with a body, or a response whose body breaks off after the given bytes. It
  numbers the body streams it makes by the call that made them, and notes at each call
  which of the earlier bodies are still open. The clock gives the next tick at each
  reading.
\<close>

datatype step = Fail string | Respond int bytes | Broken int bytes

record double =
  calls :: nat
  leaks :: "addr list list"
  ticks :: int

definition open_bodies :: "'x world \<Rightarrow> nat \<Rightarrow> addr list" where
  "open_bodies w n =
     filter (\<lambda>a. case streams w a of None \<Rightarrow> False | Some s \<Rightarrow> \<not> closed s) [0..<n]"

definition scripted :: "step list \<Rightarrow> double Requestor" where
  "scripted script request w =
     (let i = calls (rest w);
          w' = w\<lparr>rest := (rest w)\<lparr>calls := i + 1, leaks := leaks (rest w) @ [open_bodies w i]\<rparr>\<rparr>
      in if length script \<le> i then ((None, Some (Failure ''script exhausted'')), w')
         else case script ! i of
                Fail msg \<Rightarrow> ((None, Some (Failure msg)), w')
              | Respond code body \<Rightarrow>
                  ((Some \<lparr>StatusCode = code, Body = i\<rparr>, None),
                   w'\<lparr>streams := (streams w')(i \<mapsto> \<lparr>pending = body, ending = EOF, closed = False\<rparr>)\<rparr>)
              | Broken code body \<Rightarrow>
                  ((Some \<lparr>StatusCode = code, Body = i\<rparr>, None),
                   w'\<lparr>streams := (streams w')(i \<mapsto>
                        \<lparr>pending = body, ending = Failure ''unexpected EOF'', closed = False\<rparr>)\<rparr>))"

definition test_env :: "step list \<Rightarrow> double env" where
  "test_env script =
     \<lparr>currentRequestor = scripted script,
      DumpRequestOut = (\<lambda>r. (B (Method r @ '' '' @ URL r) @ crlfcrlf, None)),
      DumpResponse = (\<lambda>r. (B (''HTTP/1.1 '' @ Itoa (StatusCode r)) @ crlfcrlf, None)),
      Now = (\<lambda>w. (ticks (rest w), w\<lparr>rest := (rest w)\<lparr>ticks := ticks (rest w) + 1\<rparr>\<rparr>))\<rparr>"

definition retry_unless_200 :: "int \<Rightarrow> double RetryConfig" where
  "retry_unless_200 n =
     \<lparr>MaxRetries = n,
      Backoff = (\<lambda>i w. (100 * (i + 1), w)),
      ShouldRetry = (\<lambda>request response backoff w.
         ((case response of None \<Rightarrow> True | Some r \<Rightarrow> StatusCode r \<noteq> 200), w))\<rparr>"

definition deny_host :: "string \<Rightarrow> double AccessConfig" where
  "deny_host h = \<lparr>Allow = (\<lambda>r w. ((Hostname r \<noteq> h, None), w))\<rparr>"

definition broken_access :: "double AccessConfig" where
  "broken_access = \<lparr>Allow = (\<lambda>r w. ((False, Some (Failure ''lookup failed'')), w))\<rparr>"

definition metadata :: request where
  "metadata = \<lparr>Method = ''GET'', URL = ''http://169.254.169.254/latest'', Hostname = ''169.254.169.254''\<rparr>"

definition start :: "double exec" where
  "start = \<lparr>world = \<lparr>streams = Map.empty, rest = \<lparr>calls = 0, leaks = [], ticks = 1000\<rparr>\<rparr>,
            invocations = 0, sleeps = []\<rparr>"

definition fails_twice :: "step list" where
  "fails_twice = [Fail ''connection refused'', Fail ''connection refused'', Respond 200 (B ''ok'')]"

definition one_ok :: "step list" where
  "one_ok = [Respond 200 (B ''ok'')]"

definition no_dump_env :: "double env" where
  "no_dump_env = (test_env one_ok)\<lparr>DumpRequestOut := (\<lambda>r. ([], Some (Failure ''unsupported protocol scheme'')))\<rparr>"

text \<open>The same execution with the clock read \<open>k\<close> more times.\<close>

definition later :: "int \<Rightarrow> double exec \<Rightarrow> double exec" where
  "later k e = e\<lparr>world := (world e)\<lparr>rest := (rest (world e))\<lparr>ticks := ticks (rest (world e)) + k\<rparr>\<rparr>\<rparr>"

text \<open>
  Worlds and executions for reading a body: one open stream at address 0, which
  \<open>ok_response\<close> refers to; \<open>served\<close> is the execution after the transport has
  answered one call with that stream.
\<close>

definition huge_body :: bytes where
  "huge_body = replicate (2 ^ 63 - 1) 0x61"

definition serving :: "bytes \<Rightarrow> double world" where
  "serving body = (world start)\<lparr>streams := [0 \<mapsto> \<lparr>pending = body, ending = EOF, closed = False\<rparr>]\<rparr>"

definition ok_response :: response where
  "ok_response = \<lparr>StatusCode = 200, Body = 0\<rparr>"

definition eleven :: "step list" where
  "eleven = [Respond 200 (B ''hello world'')]"

definition cut_short :: "step list" where
  "cut_short = [Broken 200 (B ''part'')]"

definition no_header_env :: "double env" where
  "no_header_env = (test_env eleven)\<lparr>DumpResponse := (\<lambda>r. ([], Some (Failure ''short write'')))\<rparr>"

definition served :: "bytes \<Rightarrow> error \<Rightarrow> double exec" where
  "served body e =
     \<lparr>world = \<lparr>streams = [0 \<mapsto> \<lparr>pending = body, ending = e, closed = False\<rparr>],
                rest = \<lparr>calls = 1, leaks = [[]], ticks = 1001\<rparr>\<rparr>,
      invocations = 1, sleeps = []\<rparr>"

text \<open>No body stream of the world is closed.\<close>

definition all_open :: "'x world \<Rightarrow> bool" where
  "all_open w = (\<forall>a. case streams w a of None \<Rightarrow> True | Some s \<Rightarrow> \<not> closed s)"

definition busy_then_ok :: "step list" where
  "busy_then_ok = [Respond 503 (B ''busy''), Respond 200 (B ''ok'')]"

section \<open>Properties of the UTF-8 functions\<close>

lemma first_byte_lead:
  "first_byte c = Some (n, lo, hi) \<Longrightarrow> 0x80 \<le> c \<and> 0x80 \<le> lo \<and> (n = 2 \<or> n = 3 \<or> n = 4)"
  by (auto simp: first_byte_def word_le_nat_alt split: if_splits)

lemma multibyte_cases:
  assumes "multibyte p \<noteq> 0"
  shows "\<exists>c cs n lo hi. p = c # cs \<and> first_byte c = Some (n, lo, hi)
    \<and> multibyte p = n \<and> n \<le> length p \<and> lo \<le> p ! 1 \<and> p ! 1 \<le> hi
    \<and> (3 \<le> n \<longrightarrow> 0x80 \<le> p ! 2 \<and> p ! 2 \<le> 0xBF)
    \<and> (4 \<le> n \<longrightarrow> 0x80 \<le> p ! 3 \<and> p ! 3 \<le> 0xBF)"
proof -
  obtain c cs where p: "p = c # cs"
    using assms by (cases p) (auto simp: multibyte_def)
  obtain n lo hi where f: "first_byte c = Some (n, lo, hi)"
    using assms p by (cases "first_byte c") (auto simp: multibyte_def)
  have n: "n = 2 \<or> n = 3 \<or> n = 4" using first_byte_lead[OF f] by simp
  have m: "multibyte p =
      (if length p < n then 0
       else if p ! 1 < lo \<or> hi < p ! 1 then 0
       else if n = 2 then 2
       else if p ! 2 < 0x80 \<or> 0xBF < p ! 2 then 0
       else if n = 3 then 3
       else if p ! 3 < 0x80 \<or> 0xBF < p ! 3 then 0
       else 4)"
    unfolding multibyte_def p using f by simp
  have 1: "multibyte p = n" using assms n unfolding m by (auto split: if_splits)
  have 2: "n \<le> length p" using assms unfolding m by (auto split: if_splits)
  have 3: "lo \<le> p ! 1" "p ! 1 \<le> hi" using assms unfolding m by (auto split: if_splits)
  have 4: "3 \<le> n \<Longrightarrow> 0x80 \<le> p ! 2 \<and> p ! 2 \<le> 0xBF"
    using assms unfolding m by (auto split: if_splits)
  have 5: "4 \<le> n \<Longrightarrow> 0x80 \<le> p ! 3 \<and> p ! 3 \<le> 0xBF"
    using assms unfolding m by (auto split: if_splits)
  show ?thesis using p f 1 2 3 4 5 by blast
qed

lemma multibyte_bounds:
  assumes "multibyte p \<noteq> 0"
  shows "2 \<le> multibyte p" "multibyte p \<le> 4" "multibyte p \<le> length p"
  using multibyte_cases[OF assms] by (auto dest!: first_byte_lead)

lemma multibyte_high:
  assumes "multibyte p \<noteq> 0" "i < multibyte p"
  shows "0x80 \<le> p ! i"
proof -
  from multibyte_cases[OF assms(1)] obtain c cs n lo hi where p: "p = c # cs" and f: "first_byte c = Some (n, lo, hi)"
    and m: "multibyte p = n" and "lo \<le> p ! 1" 
    and 3: "3 \<le> n \<Longrightarrow> 0x80 \<le> p ! 2 \<and> p ! 2 \<le> 0xBF"
    and 4: "4 \<le> n \<Longrightarrow> 0x80 \<le> p ! 3 \<and> p ! 3 \<le> 0xBF"
    by blast
  have c: "0x80 \<le> c" and lo: "0x80 \<le> lo" and n: "n = 2 \<or> n = 3 \<or> n = 4" using first_byte_lead[OF f] by auto
  have 1: "0x80 \<le> p ! 1" using lo \<open>lo \<le> p ! 1\<close> by (rule order_trans)
  have "i = 0 \<or> i = 1 \<or> i = 2 \<or> i = 3" using assms(2) m n by linarith
  then show ?thesis
    using assms(2) m c 1 3 4 p by auto
qed

text \<open>\<open>multibyte\<close> looks at the bytes of the encoding it finds and at no other.\<close>

lemma multibyte_append:
  assumes "multibyte p \<noteq> 0"
  shows "multibyte (p @ q) = multibyte p"
proof -
  from multibyte_cases[OF assms] obtain c cs n lo hi where p: "p = c # cs" and f: "first_byte c = Some (n, lo, hi)"
    and m: "multibyte p = n" and len: "n \<le> length p" and 2: "lo \<le> p ! 1" "p ! 1 \<le> hi"
    and 3: "3 \<le> n \<Longrightarrow> 0x80 \<le> p ! 2 \<and> p ! 2 \<le> 0xBF"
    and 4: "4 \<le> n \<Longrightarrow> 0x80 \<le> p ! 3 \<and> p ! 3 \<le> 0xBF"
    by blast
  have n: "n = 2 \<or> n = 3 \<or> n = 4" using first_byte_lead[OF f] by auto
  have nth: "\<And>i. i < n \<Longrightarrow> (p @ q) ! i = p ! i" using len by (simp add: nth_append)
  have "multibyte (p @ q) =
      (if length (p @ q) < n then 0
       else if (p @ q) ! 1 < lo \<or> hi < (p @ q) ! 1 then 0
       else if n = 2 then 2
       else if (p @ q) ! 2 < 0x80 \<or> 0xBF < (p @ q) ! 2 then 0
       else if n = 3 then 3
       else if (p @ q) ! 3 < 0x80 \<or> 0xBF < (p @ q) ! 3 then 0
       else 4)"
    unfolding multibyte_def p using f by simp
  also have "\<dots> = n"
    using n len 2 3 4 nth[of 1] nth[of 2] nth[of 3] by (auto simp: not_less)
  finally show ?thesis using m by simp
qed

lemma multibyte_prefix:
  assumes "multibyte (p @ q) \<noteq> 0" and "multibyte (p @ q) \<le> length p"
  shows "multibyte p = multibyte (p @ q)"
proof -
  let ?r = "p @ q"
  from multibyte_cases[OF assms(1)] obtain c cs n lo hi where r: "?r = c # cs" and f: "first_byte c = Some (n, lo, hi)"
    and m: "multibyte ?r = n" and len: "n \<le> length ?r" and 2: "lo \<le> ?r ! 1" "?r ! 1 \<le> hi"
    and 3: "3 \<le> n \<Longrightarrow> 0x80 \<le> ?r ! 2 \<and> ?r ! 2 \<le> 0xBF"
    and 4: "4 \<le> n \<Longrightarrow> 0x80 \<le> ?r ! 3 \<and> ?r ! 3 \<le> 0xBF"
    by blast
  have n: "n = 2 \<or> n = 3 \<or> n = 4" using first_byte_lead[OF f] by auto
  have lp: "n \<le> length p" using assms(2) m by simp
  then obtain cs' where p: "p = c # cs'" using r n by (cases p) auto
  have nth: "\<And>i. i < n \<Longrightarrow> ?r ! i = p ! i" using lp by (simp add: nth_append)
  have "multibyte p =
      (if length p < n then 0
       else if p ! 1 < lo \<or> hi < p ! 1 then 0
       else if n = 2 then 2
       else if p ! 2 < 0x80 \<or> 0xBF < p ! 2 then 0
       else if n = 3 then 3
       else if p ! 3 < 0x80 \<or> 0xBF < p ! 3 then 0
       else 4)"
    unfolding multibyte_def p using f by simp
  also have "\<dots> = n"
    using n lp 2 3 4 nth[of 1] nth[of 2] nth[of 3] by (auto simp: not_less)
  finally show ?thesis using m by simp
qed


lemma drop_append_le: "n \<le> length p \<Longrightarrow> drop n (p @ q) = drop n p @ q"
  by simp

lemma utf8_Valid_append: "utf8_Valid a \<Longrightarrow> utf8_Valid b \<Longrightarrow> utf8_Valid (a @ b)"
proof (induction a rule: utf8_Valid.induct)
  case 1
  then show ?case by simp
next
  case (2 c cs)
  show ?case
  proof (cases "c < RuneSelf")
    case True
    with 2 show ?thesis by simp
  next
    case False
    let ?p = "c # cs"
    from 2(3) False have m: "multibyte ?p \<noteq> 0" and v: "utf8_Valid (drop (multibyte ?p) ?p)"
      by (auto split: if_splits)
    have len: "multibyte ?p \<le> length ?p" using multibyte_bounds(3)[OF m] .
    have eq: "multibyte (?p @ b) = multibyte ?p" using multibyte_append[OF m] .
    have "utf8_Valid (drop (multibyte ?p) ?p @ b)" using 2(2)[OF False m v 2(4)] .
    moreover have "drop (multibyte ?p) (?p @ b) = drop (multibyte ?p) ?p @ b" using len by (rule drop_append_le)
    ultimately have "utf8_Valid (drop (multibyte (?p @ b)) (?p @ b))" using eq by simp
    then show ?thesis using False m eq by simp
  qed
qed

lemma utf8_Valid_before_ascii:
  "utf8_Valid (a @ c # r) \<Longrightarrow> c < RuneSelf \<Longrightarrow> utf8_Valid a \<and> utf8_Valid r"
proof (induction a rule: utf8_Valid.induct)
  case 1
  then show ?case by simp
next
  case (2 x xs)
  show ?case
  proof (cases "x < RuneSelf")
    case True
    with 2 show ?thesis by simp
  next
    case False
    let ?p = "x # xs" and ?q = "c # r"
    from 2(3) False have m: "multibyte (?p @ ?q) \<noteq> 0"
      and v: "utf8_Valid (drop (multibyte (?p @ ?q)) (?p @ ?q))"
      by (auto split: if_splits)
    have len: "multibyte (?p @ ?q) \<le> length ?p"
    proof (rule ccontr)
      assume "\<not> ?thesis"
      then have "length ?p < multibyte (?p @ ?q)" by simp
      from multibyte_high[OF m this] have "0x80 \<le> c" by (simp add: nth_append)
      with 2(4) show False by (simp add: RuneSelf_def)
    qed
    have eq: "multibyte ?p = multibyte (?p @ ?q)" using multibyte_prefix[OF m len] .
    have "multibyte ?p \<le> length ?p" using len eq by simp
    then have "drop (multibyte ?p) (?p @ ?q) = drop (multibyte ?p) ?p @ ?q" by (rule drop_append_le)
    with v eq have "utf8_Valid (drop (multibyte ?p) ?p @ ?q)" by simp
    from 2(2)[OF False _ this 2(4)] m eq
    have "utf8_Valid (drop (multibyte ?p) ?p) \<and> utf8_Valid r" by simp
    then show ?thesis using False m eq by simp
  qed
qed

lemma utf8_Valid_take_multibyte:
  assumes "multibyte p \<noteq> 0"
  shows "utf8_Valid (take (multibyte p) p @ q) = utf8_Valid q"
proof -
  let ?t = "take (multibyte p) p"
  have len: "multibyte p \<le> length p" using multibyte_bounds(3)[OF assms] .
  have "multibyte (?t @ drop (multibyte p) p) \<noteq> 0" using assms by simp
  moreover have "multibyte (?t @ drop (multibyte p) p) \<le> length ?t" using len by simp
  ultimately have t: "multibyte ?t = multibyte p" using multibyte_prefix[of ?t "drop (multibyte p) p"] by simp
  then have tq: "multibyte (?t @ q) = multibyte p" using multibyte_append[of ?t q] assms by simp
  obtain c cs where c: "?t @ q = c # cs" "\<not> c < RuneSelf"
  proof -
    have "2 \<le> multibyte p" using multibyte_bounds(1)[OF assms] .
    then obtain c cs where p: "p = c # cs" using len by (cases p) auto
    have "0x80 \<le> p ! 0" using multibyte_high[OF assms, of 0] \<open>2 \<le> multibyte p\<close> by simp
    then have "\<not> c < RuneSelf" using p by (simp add: RuneSelf_def not_less)
    moreover have "?t @ q = c # (take (multibyte p - 1) cs @ q)"
      using p \<open>2 \<le> multibyte p\<close> by (simp add: take_Cons')
    ultimately show thesis using that by blast
  qed
  have "drop (multibyte p) (?t @ q) = q" using len by simp
  then show ?thesis using c tq assms by (metis utf8_Valid.simps(2))
qed

lemma replacement_char_Valid: "utf8_Valid replacement_char"
  by (simp add: replacement_char_def RuneSelf_def multibyte_def first_byte_def)

lemma utf8_Valid_ToValidUTF8_from:
  "utf8_Valid replacement \<Longrightarrow> utf8_Valid (ToValidUTF8_from replacement invalid s)"
proof (induction replacement invalid s rule: ToValidUTF8_from.induct)
  case (1 replacement invalid)
  then show ?case by simp
next
  case (2 replacement invalid c cs)
  show ?case
  proof (cases "c < RuneSelf")
    case True
    with 2 show ?thesis by simp
  next
    case False
    show ?thesis
    proof (cases "DecodeRune_size (c # cs) = 1")
      case True
      with False 2 show ?thesis by (simp add: utf8_Valid_append)
    next
      case one: False
      then have m: "multibyte (c # cs) \<noteq> 0" and d: "DecodeRune_size (c # cs) = multibyte (c # cs)"
        using False by (auto simp: DecodeRune_size_def split: if_splits)
      show ?thesis using False one 2 d utf8_Valid_take_multibyte[OF m] by simp
    qed
  qed
qed

lemma ToValidUTF8_from_Valid:
  "utf8_Valid s \<Longrightarrow> ToValidUTF8_from replacement invalid s = s"
proof (induction replacement invalid s rule: ToValidUTF8_from.induct)
  case (1 replacement invalid)
  then show ?case by simp
next
  case (2 replacement invalid c cs)
  show ?case
  proof (cases "c < RuneSelf")
    case True
    with 2 show ?thesis by simp
  next
    case False
    with 2(4) have m: "multibyte (c # cs) \<noteq> 0" and v: "utf8_Valid (drop (multibyte (c # cs)) (c # cs))"
      by (auto split: if_splits)
    have d: "DecodeRune_size (c # cs) = multibyte (c # cs)" and one: "DecodeRune_size (c # cs) \<noteq> 1"
      using False m multibyte_bounds(1)[OF m] by (auto simp: DecodeRune_size_def)
    have "ToValidUTF8_from replacement False (drop (DecodeRune_size (c # cs)) (c # cs))
          = drop (DecodeRune_size (c # cs)) (c # cs)"
      using 2(3)[OF False one] v d by simp
    then show ?thesis using False one by simp
  qed
qed

lemma replaceNullChars_no_null: "0 \<notin> set (replaceNullChars b)"
  by (induction b) (auto simp: replaceNullChars_def ReplaceAll_byte_def replacement_char_def)

lemma replaceNullChars_id: "0 \<notin> set b \<Longrightarrow> replaceNullChars b = b"
  by (induction b) (auto simp: replaceNullChars_def ReplaceAll_byte_def)

lemma replaceNullChars_append: "replaceNullChars (a @ b) = replaceNullChars a @ replaceNullChars b"
  by (simp add: replaceNullChars_def ReplaceAll_byte_def)

lemma replaceNullChars_Cons: "replaceNullChars (c # cs) = (if c = 0 then replacement_char else [c]) @ replaceNullChars cs"
  by (simp add: replaceNullChars_def ReplaceAll_byte_def)

lemma utf8_Valid_replaceNullChars: "utf8_Valid b \<Longrightarrow> utf8_Valid (replaceNullChars b)"
proof (induction b rule: utf8_Valid.induct)
  case 1
  then show ?case by (simp add: replaceNullChars_def ReplaceAll_byte_def)
next
  case (2 c cs)
  show ?case
  proof (cases "c < RuneSelf")
    case True
    with 2 have "utf8_Valid (replaceNullChars cs)" by simp
    then show ?thesis using True replacement_char_Valid
      by (simp add: replaceNullChars_Cons utf8_Valid_append)
  next
    case False
    let ?p = "c # cs"
    from 2(3) False have m: "multibyte ?p \<noteq> 0" and v: "utf8_Valid (drop (multibyte ?p) ?p)"
      by (auto split: if_splits)
    have "0 \<notin> set (take (multibyte ?p) ?p)"
    proof
      assume "0 \<in> set (take (multibyte ?p) ?p)"
      then obtain i where "i < length (take (multibyte ?p) ?p)" "take (multibyte ?p) ?p ! i = 0"
        by (auto simp: in_set_conv_nth)
      then have "i < multibyte ?p" "?p ! i = 0" by auto
      with multibyte_high[OF m, of i] show False by simp
    qed
    then have t: "replaceNullChars (take (multibyte ?p) ?p) = take (multibyte ?p) ?p"
      by (rule replaceNullChars_id)
    have "replaceNullChars ?p = replaceNullChars (take (multibyte ?p) ?p @ drop (multibyte ?p) ?p)"
      by simp
    also have "\<dots> = take (multibyte ?p) ?p @ replaceNullChars (drop (multibyte ?p) ?p)"
      unfolding replaceNullChars_append t ..
    finally show ?thesis using utf8_Valid_take_multibyte[OF m] 2(2)[OF False m v] by simp
  qed
qed


section \<open>Properties of the sanitizer\<close>

lemma B_simps: "B [] = []" "B (c # cs) = of_char c # B cs"
  by (simp_all add: B_def)

lemma captured_fields:
  "RequestTrace (captured req hdr body) = req"
  "ResponseTrace (captured req hdr body) = hdr"
  "ResponseBody (captured req hdr body) = body"
  by (simp_all add: captured_def)

lemma cut_Some: "cut s sep = Some (a, b) \<Longrightarrow> s = a @ sep @ b"
proof (induction s sep arbitrary: a rule: cut.induct)
  case (1 sep)
  then show ?case by (auto split: if_splits)
next
  case (2 c cs sep)
  show ?case
  proof (cases "HasPrefix (c # cs) sep")
    case True
    then have "c # cs = sep @ drop (length sep) (c # cs)"
      unfolding HasPrefix_def by (metis append_take_drop_id)
    with 2(2) True show ?thesis by simp
  next
    case False
    with 2 show ?thesis by (auto split: option.splits)
  qed
qed

lemma cut_None: "cut s sep = None \<Longrightarrow> s \<noteq> a @ sep @ b"
proof (induction s sep arbitrary: a rule: cut.induct)
  case (1 sep)
  then show ?case by (auto split: if_splits)
next
  case (2 c cs sep)
  from 2(2) have np: "\<not> HasPrefix (c # cs) sep" and n: "cut cs sep = None"
    by (auto split: if_splits option.splits)
  show ?case
  proof (cases a)
    case Nil
    then show ?thesis using np by (auto simp: HasPrefix_def)
  next
    case (Cons x xs)
    then show ?thesis using 2(1)[OF np n, of xs] by auto
  qed
qed

lemma santizedTrace_safe:
  assumes "utf8_Valid placeholder" and "0 \<notin> set placeholder"
  shows "utf8_Valid (santizedTrace header body placeholder)"
    and "0 \<notin> set (santizedTrace header body placeholder)"
proof -
  have h: "utf8_Valid (replaceNullChars (ToValidUTF8 header replacement_char))"
    unfolding ToValidUTF8_def
    by (intro utf8_Valid_replaceNullChars utf8_Valid_ToValidUTF8_from replacement_char_Valid)
  show "utf8_Valid (santizedTrace header body placeholder)"
    unfolding santizedTrace_def using h assms(1)
    by (auto intro!: utf8_Valid_append utf8_Valid_replaceNullChars)
  show "0 \<notin> set (santizedTrace header body placeholder)"
    unfolding santizedTrace_def using assms(2) replaceNullChars_no_null by auto
qed

lemma sanitize_valid_id:
  "utf8_Valid s \<Longrightarrow> 0 \<notin> set s \<Longrightarrow> replaceNullChars (ToValidUTF8 s replacement_char) = s"
  by (simp add: ToValidUTF8_def ToValidUTF8_from_Valid replaceNullChars_id)

lemma crlfcrlf_Valid: "utf8_Valid crlfcrlf" and crlfcrlf_no_null: "0 \<notin> set crlfcrlf"
  by (simp_all add: crlfcrlf_def RuneSelf_def)

lemma utf8_Valid_around_crlfcrlf:
  assumes "utf8_Valid (a @ crlfcrlf @ b)"
  shows "utf8_Valid a" and "utf8_Valid b"
proof -
  have "a @ crlfcrlf @ b = a @ 0x0D # ([0x0A, 0x0D, 0x0A] @ b)" by (simp add: crlfcrlf_def)
  with assms have "utf8_Valid a \<and> utf8_Valid ([0x0A, 0x0D, 0x0A] @ b)"
    using utf8_Valid_before_ascii[of a "0x0D" "[0x0A, 0x0D, 0x0A] @ b"] by (simp add: RuneSelf_def)
  then show "utf8_Valid a" and "utf8_Valid b" by (simp_all add: RuneSelf_def)
qed

lemma santizedTrace_clean:
  assumes "utf8_Valid h" "0 \<notin> set h" "utf8_Valid b" "0 \<notin> set b"
  shows "santizedTrace h b placeholder = h @ b"
  using assms by (simp add: santizedTrace_def sanitize_valid_id replaceNullChars_id)

lemma SanitizedRequest_no_separator:
  assumes "cut (RequestTrace t) crlfcrlf = None"
  shows "SanitizedRequest t placeholder = santizedTrace (RequestTrace t @ crlfcrlf) [] placeholder"
  using assms by (simp add: SanitizedRequest_def SplitN2_def)



text \<open>
  C5. Claimed: for every header bytes, body bytes and placeholder string, the sanitized
  request and response contain no null byte and are valid UTF-8. The placeholder is
  written to the output as the caller gave it, so the claim fails for a placeholder that
  itself holds a null byte (or ill-formed UTF-8) when the body is not valid UTF-8. As
  amended: for every header bytes and body bytes, and every placeholder that is valid
  UTF-8 and holds no null byte, the output of \<open>SanitizedRequest\<close> and of
  \<open>SanitizedResponse\<close> is valid UTF-8 and holds no null byte.
\<close>

theorem sanitized_output_safe:
  assumes "utf8_Valid placeholder" and "0 \<notin> set placeholder"
  shows "utf8_Valid (SanitizedRequest t placeholder) \<and> 0 \<notin> set (SanitizedRequest t placeholder)
       \<and> utf8_Valid (SanitizedResponse t placeholder) \<and> 0 \<notin> set (SanitizedResponse t placeholder)"
  unfolding SanitizedRequest_def SanitizedResponse_def Let_def
  using santizedTrace_safe[OF assms] by blast

theorem sanitized_output_safe_witness:
  "utf8_Valid (B ''[binary]'') \<and> 0 \<notin> set (B ''[binary]'')
   \<and> utf8_Valid (SanitizedRequest (captured [0x47, 0xFF, 0x00, 0xC3] [0x00, 0xE2, 0x82] [0x00, 0xFE]) (B ''[binary]''))
   \<and> 0 \<notin> set (SanitizedRequest (captured [0x47, 0xFF, 0x00, 0xC3] [0x00, 0xE2, 0x82] [0x00, 0xFE]) (B ''[binary]''))
   \<and> utf8_Valid (SanitizedResponse (captured [0x47, 0xFF, 0x00, 0xC3] [0x00, 0xE2, 0x82] [0x00, 0xFE]) (B ''[binary]''))
   \<and> 0 \<notin> set (SanitizedResponse (captured [0x47, 0xFF, 0x00, 0xC3] [0x00, 0xE2, 0x82] [0x00, 0xFE]) (B ''[binary]''))"
proof -
  have v: "utf8_Valid (B ''[binary]'')" by (simp add: B_simps RuneSelf_def)
  have n: "0 \<notin> set (B ''[binary]'')" by (simp add: B_simps)
  show ?thesis using sanitized_output_safe[OF v n] v n by blast
qed

theorem sanitized_placeholder_counterexample:
  "SanitizedResponse (captured [] [] [0xFF]) [0x00] = [0x00]
   \<and> SanitizedRequest (captured (crlfcrlf @ [0xFF]) [] []) [0x00] = crlfcrlf @ [0x00]"
  by (simp add: SanitizedResponse_def SanitizedRequest_def SplitN2_def HasPrefix_def captured_def
      santizedTrace_def ToValidUTF8_def replaceNullChars_def ReplaceAll_byte_def crlfcrlf_def
      RuneSelf_def multibyte_def first_byte_def)

text \<open>
  C6. A trace whose captured bytes are valid UTF-8 without null bytes is returned
  unchanged: the request dump as it is when it holds the blank-line separator (header
  section, separator and body put together again), the response header dump followed by
  the response body; and a request dump without the separator is treated as headers
  only, with an empty body, the separator being added after it.
\<close>

theorem sanitize_clean_trace_unchanged:
  "(utf8_Valid (RequestTrace t) \<and> 0 \<notin> set (RequestTrace t) \<longrightarrow>
      SanitizedRequest t placeholder =
        (if \<exists>a b. RequestTrace t = a @ crlfcrlf @ b then RequestTrace t
         else RequestTrace t @ crlfcrlf))
   \<and> (utf8_Valid (ResponseTrace t) \<and> 0 \<notin> set (ResponseTrace t)
        \<and> utf8_Valid (ResponseBody t) \<and> 0 \<notin> set (ResponseBody t) \<longrightarrow>
      SanitizedResponse t placeholder = ResponseTrace t @ ResponseBody t)
   \<and> ((\<nexists>a b. RequestTrace t = a @ crlfcrlf @ b) \<longrightarrow>
      SanitizedRequest t placeholder = santizedTrace (RequestTrace t @ crlfcrlf) [] placeholder)"
proof (intro conjI impI)
  assume v: "utf8_Valid (RequestTrace t) \<and> 0 \<notin> set (RequestTrace t)"
  show "SanitizedRequest t placeholder =
        (if \<exists>a b. RequestTrace t = a @ crlfcrlf @ b then RequestTrace t
         else RequestTrace t @ crlfcrlf)"
  proof (cases "cut (RequestTrace t) crlfcrlf")
    case None
    then have no: "\<not> (\<exists>a b. RequestTrace t = a @ crlfcrlf @ b)" using cut_None by blast
    have "utf8_Valid (RequestTrace t @ crlfcrlf)" "0 \<notin> set (RequestTrace t @ crlfcrlf)"
      using v crlfcrlf_Valid crlfcrlf_no_null by (auto intro: utf8_Valid_append)
    then have "santizedTrace (RequestTrace t @ crlfcrlf) [] placeholder = RequestTrace t @ crlfcrlf"
      using santizedTrace_clean[of "RequestTrace t @ crlfcrlf" "[]"] by simp
    then show ?thesis using no SanitizedRequest_no_separator[OF None] by simp
  next
    case (Some ab)
    obtain a b where ab: "ab = (a, b)" by (cases ab)
    have eq: "RequestTrace t = a @ crlfcrlf @ b" using cut_Some Some ab by blast
    have va: "utf8_Valid a" and vb: "utf8_Valid b"
      using utf8_Valid_around_crlfcrlf[of a b] v eq by simp_all
    have "utf8_Valid (a @ crlfcrlf)" using va crlfcrlf_Valid by (rule utf8_Valid_append)
    moreover have "0 \<notin> set (a @ crlfcrlf)" "0 \<notin> set b" using v eq by auto
    ultimately have "santizedTrace (a @ crlfcrlf) b placeholder = (a @ crlfcrlf) @ b"
      using vb by (intro santizedTrace_clean)
    moreover have "SanitizedRequest t placeholder = santizedTrace (a @ crlfcrlf) b placeholder"
      using Some ab by (simp add: SanitizedRequest_def SplitN2_def)
    ultimately show ?thesis using eq by auto
  qed
next
  assume "utf8_Valid (ResponseTrace t) \<and> 0 \<notin> set (ResponseTrace t)
        \<and> utf8_Valid (ResponseBody t) \<and> 0 \<notin> set (ResponseBody t)"
  then show "SanitizedResponse t placeholder = ResponseTrace t @ ResponseBody t"
    by (simp add: SanitizedResponse_def santizedTrace_clean)
next
  assume no: "\<nexists>a b. RequestTrace t = a @ crlfcrlf @ b"
  have "cut (RequestTrace t) crlfcrlf = None"
  proof (cases "cut (RequestTrace t) crlfcrlf")
    case (Some ab)
    then show ?thesis using cut_Some[of "RequestTrace t" crlfcrlf "fst ab" "snd ab"] no by auto
  qed simp
  then show "SanitizedRequest t placeholder = santizedTrace (RequestTrace t @ crlfcrlf) [] placeholder"
    by (rule SanitizedRequest_no_separator)
qed

lemma get_dump_clean: "utf8_Valid get_dump" "0 \<notin> set get_dump"
  by (simp_all add: get_dump_def B_simps crlfcrlf_def RuneSelf_def)

lemma request_line_clean:
  "utf8_Valid (B ''GET / HTTP/1.1'')" "0 \<notin> set (B ''GET / HTTP/1.1'')"
  by (simp_all add: B_simps RuneSelf_def)

lemma request_line_no_separator: "\<nexists>a b. B ''GET / HTTP/1.1'' = a @ crlfcrlf @ b"
proof -
  have "cut (B ''GET / HTTP/1.1'') crlfcrlf = None"
    by (simp add: B_simps crlfcrlf_def HasPrefix_def)
  then show ?thesis using cut_None by blast
qed

theorem sanitize_clean_trace_unchanged_witness:
  "utf8_Valid get_dump \<and> 0 \<notin> set get_dump
   \<and> SanitizedRequest (captured (get_dump @ B ''hello'') ok_headers (B ''world'')) (B ''[binary]'')
       = get_dump @ B ''hello''
   \<and> SanitizedResponse (captured (get_dump @ B ''hello'') ok_headers (B ''world'')) (B ''[binary]'')
       = ok_headers @ B ''world''
   \<and> SanitizedRequest (captured (B ''GET / HTTP/1.1'') [] []) (B ''[binary]'')
       = B ''GET / HTTP/1.1'' @ crlfcrlf"
proof -
  let ?t = "captured (get_dump @ B ''hello'') ok_headers (B ''world'')"
  let ?u = "captured (B ''GET / HTTP/1.1'') [] []"
  note th = sanitize_clean_trace_unchanged[of ?t "B ''[binary]''", unfolded captured_fields]
  note tu = sanitize_clean_trace_unchanged[of ?u "B ''[binary]''", unfolded captured_fields]
  have hello: "utf8_Valid (B ''hello'')" "0 \<notin> set (B ''hello'')"
    and world: "utf8_Valid (B ''world'')" "0 \<notin> set (B ''world'')"
    by (simp_all add: B_simps RuneSelf_def)
  have req: "utf8_Valid (get_dump @ B ''hello'')" "0 \<notin> set (get_dump @ B ''hello'')"
    using get_dump_clean hello by (auto intro: utf8_Valid_append)
  have hdr: "utf8_Valid ok_headers" "0 \<notin> set ok_headers"
    by (simp_all add: ok_headers_def B_simps crlfcrlf_def RuneSelf_def)
  have sep: "\<exists>a b. get_dump @ B ''hello'' = a @ crlfcrlf @ b"
    by (intro exI[of _ "B ''GET / HTTP/1.1'' @ [0x0D, 0x0A] @ B ''Host: example.com''"]
              exI[of _ "B ''hello''"]) (simp add: get_dump_def)
  have 1: "SanitizedRequest ?t (B ''[binary]'') = get_dump @ B ''hello''"
    using th req sep by simp
  have 2: "SanitizedResponse ?t (B ''[binary]'') = ok_headers @ B ''world''"
    using th hdr world by blast
  have 3: "SanitizedRequest ?u (B ''[binary]'') = B ''GET / HTTP/1.1'' @ crlfcrlf"
    using tu request_line_clean request_line_no_separator by simp
  show ?thesis using get_dump_clean 1 2 3 by blast
qed




section \<open>Properties of the executor\<close>

lemma lift_invocations:
  "lift f e = (a, e') \<Longrightarrow> invocations e' = invocations e \<and> sleeps e' = sleeps e"
  by (auto simp: lift_def split: prod.splits)

lemma dispatch_invocations:
  "dispatch env request e = (r, e') \<Longrightarrow> invocations e' = invocations e + 1 \<and> sleeps e' = sleeps e"
  by (auto simp: dispatch_def split: prod.splits)

lemma do_loop_counts:
  "do_loop env request retries retry e = ((response, n, err), e') \<Longrightarrow>
     retry \<le> n
     \<and> int (invocations e') = int (invocations e) + (n - retry) + 1
     \<and> int (length (sleeps e')) = int (length (sleeps e)) + (n - retry)
     \<and> (case retries of None \<Rightarrow> n = retry | Some rc \<Rightarrow> n \<le> max retry (MaxRetries rc))"
proof (induction env request retries retry e rule: do_loop.induct)
  case (1 env request retries retry e)
  obtain r0 er0 e1 where d: "dispatch env request e = ((r0, er0), e1)"
    by (metis prod.exhaust)
  note inv1 = dispatch_invocations[OF d]
  show ?case
  proof (cases retries)
    case None
    with 1(2) d inv1 show ?thesis by (simp add: do_loop.simps)
  next
    case (Some rc)
    show ?thesis
    proof (cases "retry < MaxRetries rc")
      case False
      with 1(2) d inv1 Some show ?thesis by (simp add: do_loop.simps)
    next
      case True
      obtain backoff e2 where b: "lift (Backoff rc retry) e1 = (backoff, e2)"
        by (metis prod.exhaust)
      obtain again e3 where s: "lift (ShouldRetry rc request r0 backoff) e2 = (again, e3)"
        by (metis prod.exhaust)
      note inv2 = lift_invocations[OF b] and inv3 = lift_invocations[OF s]
      show ?thesis
      proof (cases again)
        case False
        with 1(2) d b s Some True inv1 inv2 inv3 show ?thesis
          by (simp add: do_loop.simps)
      next
        case again: True
        from 1(2) d b s Some True again
        have rec: "do_loop env request retries (retry + 1) (Sleep backoff e3) = ((response, n, err), e')"
          by (simp add: do_loop.simps)
        have IH: "retry + 1 \<le> n
           \<and> int (invocations e') = int (invocations (Sleep backoff e3)) + (n - (retry + 1)) + 1
           \<and> int (length (sleeps e')) = int (length (sleeps (Sleep backoff e3))) + (n - (retry + 1))
           \<and> (case retries of None \<Rightarrow> n = retry + 1 | Some rc \<Rightarrow> n \<le> max (retry + 1) (MaxRetries rc))"
          using 1(1)[OF d[symmetric] refl Some True b[symmetric] s[symmetric] again rec] .
        then show ?thesis using inv1 inv2 inv3 Some True
          by (auto simp: Sleep_def)
      qed
    qed
  qed
qed


lemma do_counts:
  assumes "do env request retries access e = ((response, n, err), e')"
  shows "0 \<le> n"
    and "invocations e' = invocations e \<and> n = 0 \<and> response = None \<and> err \<noteq> None
         \<or> int (invocations e') = int (invocations e) + n + 1"
    and "case retries of None \<Rightarrow> n = 0 | Some rc \<Rightarrow> n \<le> max 0 (MaxRetries rc)"
proof -
  have "0 \<le> n
    \<and> (invocations e' = invocations e \<and> n = 0 \<and> response = None \<and> err \<noteq> None
         \<or> int (invocations e') = int (invocations e) + n + 1)
    \<and> (case retries of None \<Rightarrow> n = 0 | Some rc \<Rightarrow> n \<le> max 0 (MaxRetries rc))"
  proof (cases access)
    case None
    with assms have "do_loop env request retries 0 e = ((response, n, err), e')"
      by (simp add: do_def)
    from do_loop_counts[OF this] show ?thesis by simp
  next
    case (Some a)
    obtain allowed aerr e0 where l: "lift (Allow a request) e = ((allowed, aerr), e0)"
      by (metis prod.exhaust)
    note inv0 = lift_invocations[OF l]
    show ?thesis
    proof (cases "aerr \<noteq> None \<or> \<not> allowed")
      case True
      with assms Some l inv0 show ?thesis
        by (auto simp: do_def split: option.splits if_splits)
    next
      case False
      with assms Some l have "do_loop env request retries 0 e0 = ((response, n, err), e')"
        by (simp add: do_def)
      from do_loop_counts[OF this] inv0 show ?thesis by simp
    qed
  qed
  then show "0 \<le> n"
    and "invocations e' = invocations e \<and> n = 0 \<and> response = None \<and> err \<noteq> None
         \<or> int (invocations e') = int (invocations e) + n + 1"
    and "case retries of None \<Rightarrow> n = 0 | Some rc \<Rightarrow> n \<le> max 0 (MaxRetries rc)"
    by blast+
qed

lemma do_bound:
  assumes "do env request (Some rc) access e = ((response, n, err), e')" and "0 \<le> MaxRetries rc"
  shows "invocations e' \<le> invocations e + nat (MaxRetries rc) + 1"
    and "invocations e < invocations e' \<Longrightarrow> n = int (invocations e' - invocations e) - 1"
  using do_counts[OF assms(1)] assms(2) by auto

text \<open>
  \<open>DoTrace\<close> either stops at the request dump, or runs \<open>do\<close> once and reports its
  retry count; nothing else it calls reaches the Requestor.
\<close>

lemma DoTrace_invocations:
  assumes "DoTrace env request retries access m e = (out, e')"
  shows "(\<exists>dump err. DumpRequestOut env request = (dump, Some err)) \<and> e' = e
     \<or> (\<exists>e0 e1 response n err.
           do env request retries access e0 = ((response, n, err), e1)
           \<and> invocations e0 = invocations e \<and> invocations e' = invocations e1
           \<and> (\<forall>t err'. out = Return (Some t, err') \<longrightarrow> Retries t = n))"
proof -
  obtain dump derr where d: "DumpRequestOut env request = (dump, derr)" by (metis prod.exhaust)
  show ?thesis
  proof (cases derr)
    case (Some x)
    with assms d show ?thesis by (simp add: DoTrace_def)
  next
    case None
    obtain t0 e0 where n0: "lift (Now env) e = (t0, e0)" by (metis prod.exhaust)
    obtain response n err e1 where dd: "do env request retries access e0 = ((response, n, err), e1)"
      by (metis prod.exhaust)
    obtain t1 e2 where n1: "lift (Now env) e1 = (t1, e2)" by (metis prod.exhaust)
    obtain r e3 where dr: "lift (dumpResponse env response m) e2 = (r, e3)" by (metis prod.exhaust)
    note i0 = lift_invocations[OF n0] and i1 = lift_invocations[OF n1] and i2 = lift_invocations[OF dr]
    have "invocations e' = invocations e1 \<and> (\<forall>t err'. out = Return (Some t, err') \<longrightarrow> Retries t = n)"
      using assms d None n0 dd n1 dr i1 i2
      by (auto simp: DoTrace_def Let_def split: if_splits outcome.splits prod.splits)
    then show ?thesis using dd i0 by blast
  qed
qed


lemmas doubles =
  test_env_def scripted_def retry_unless_200_def deny_host_def broken_access_def start_def
  open_bodies_def GET_def metadata_def dispatch_def lift_def Sleep_def

lemma fails_twice_run:
  "fst (do (test_env fails_twice) GET (Some (retry_unless_200 2)) None start)
     = (Some \<lparr>StatusCode = 200, Body = 2\<rparr>, 2, None)"
  "invocations (snd (do (test_env fails_twice) GET (Some (retry_unless_200 2)) None start)) = 3"
  "sleeps (snd (do (test_env fails_twice) GET (Some (retry_unless_200 2)) None start)) = [100, 200]"
  by (simp_all add: do_def do_loop.simps doubles fails_twice_def)

text \<open>
  C2. Claimed: with a retry configuration whose \<open>MaxRetries\<close> is \<open>N \<ge> 0\<close>, one call
  of \<open>Do\<close> or \<open>DoTrace\<close> invokes the Requestor at most \<open>N + 1\<close> times and
  reports a retry count equal to the number of invocations minus 1. The bound holds for
  every call; the equation fails for a call that the access check stops, which invokes
  the Requestor 0 times and reports 0 retries. As amended: the Requestor is invoked at
  most \<open>N + 1\<close> times, and whenever the call invokes it at all, the retry count it
  reports, which \<open>DoTrace\<close> stores in \<open>Retries\<close>, is the number of invocations
  minus 1; a call that invokes it 0 times reports 0. With \<open>N = 2\<close>, a policy that
  retries a missing response and stops at status 200, and a Requestor that fails twice
  and then answers 200, the result is the 200 response with 2 retries.
\<close>

theorem retries_bounded:
  assumes "MaxRetries rc = N" and "0 \<le> N"
  shows
   "(do env request (Some rc) access e = ((response, n, err), e') \<longrightarrow>
       invocations e' \<le> invocations e + nat N + 1
       \<and> (invocations e < invocations e' \<longrightarrow> n = int (invocations e' - invocations e) - 1)
       \<and> (invocations e' = invocations e \<longrightarrow> n = 0))
    \<and> (Do env request (Some rc) access e = ((response, err), e') \<longrightarrow>
       invocations e' \<le> invocations e + nat N + 1)
    \<and> (DoTrace env request (Some rc) access m e = (out, e') \<longrightarrow>
       invocations e' \<le> invocations e + nat N + 1
       \<and> (\<forall>t err'. out = Return (Some t, err') \<and> invocations e < invocations e' \<longrightarrow>
             Retries t = int (invocations e' - invocations e) - 1))
    \<and> fst (do (test_env fails_twice) GET (Some (retry_unless_200 2)) None start)
         = (Some \<lparr>StatusCode = 200, Body = 2\<rparr>, 2, None)
    \<and> fst (Do (test_env fails_twice) GET (Some (retry_unless_200 2)) None start)
         = (Some \<lparr>StatusCode = 200, Body = 2\<rparr>, None)"
proof (intro conjI impI)
  assume d: "do env request (Some rc) access e = ((response, n, err), e')"
  show "invocations e' \<le> invocations e + nat N + 1"
    using do_bound(1)[OF d] assms by simp
  show "n = int (invocations e' - invocations e) - 1" if "invocations e < invocations e'"
    using do_bound(2)[OF d _ that] assms by simp
  show "n = 0" if "invocations e' = invocations e"
    using do_counts(1,2)[OF d] that by auto
next
  assume "Do env request (Some rc) access e = ((response, err), e')"
  then obtain n where "do env request (Some rc) access e = ((response, n, err), e')"
    by (auto simp: Do_def split: prod.splits)
  from do_bound(1)[OF this] assms show "invocations e' \<le> invocations e + nat N + 1" by simp
next
  assume t: "DoTrace env request (Some rc) access m e = (out, e')"
  from DoTrace_invocations[OF t]
  show "invocations e' \<le> invocations e + nat N + 1"
    using do_bound(1) assms by fastforce
  from DoTrace_invocations[OF t]
  show "\<forall>t err'. out = Return (Some t, err') \<and> invocations e < invocations e' \<longrightarrow>
             Retries t = int (invocations e' - invocations e) - 1"
    using do_bound(2) assms by fastforce
next
  show "fst (do (test_env fails_twice) GET (Some (retry_unless_200 2)) None start)
         = (Some \<lparr>StatusCode = 200, Body = 2\<rparr>, 2, None)"
    by (rule fails_twice_run)
  then show "fst (Do (test_env fails_twice) GET (Some (retry_unless_200 2)) None start)
         = (Some \<lparr>StatusCode = 200, Body = 2\<rparr>, None)"
    by (cases "do (test_env fails_twice) GET (Some (retry_unless_200 2)) None start")
       (auto simp: Do_def)
qed

theorem retries_bounded_witness:
  "MaxRetries (retry_unless_200 2) = 2
   \<and> fst (do (test_env fails_twice) GET (Some (retry_unless_200 2)) None start)
       = (Some \<lparr>StatusCode = 200, Body = 2\<rparr>, 2, None)
   \<and> invocations (snd (do (test_env fails_twice) GET (Some (retry_unless_200 2)) None start)) = 3
   \<and> invocations (snd (do (test_env fails_twice) GET (Some (retry_unless_200 2)) None start))
       \<le> invocations start + nat 2 + 1
   \<and> (2::int) = int (invocations (snd (do (test_env fails_twice) GET (Some (retry_unless_200 2)) None start))
                      - invocations start) - 1"
proof -
  let ?run = "do (test_env fails_twice) GET (Some (retry_unless_200 2)) None start"
  have m: "MaxRetries (retry_unless_200 2) = 2" by (simp add: retry_unless_200_def)
  have r: "?run = ((Some \<lparr>StatusCode = 200, Body = 2\<rparr>, 2, None), snd ?run)"
    using fails_twice_run(1) by (metis prod.collapse)
  have i: "invocations (snd ?run) = 3" by (rule fails_twice_run)
  have s: "invocations start < invocations (snd ?run)" using i by (simp add: start_def)
  from retries_bounded[OF m, of "test_env fails_twice" GET None start _ _ _ "snd ?run"] r s
  have "invocations (snd ?run) \<le> invocations start + nat 2 + 1"
    and "(2::int) = int (invocations (snd ?run) - invocations start) - 1"
    by auto
  then show ?thesis using m fails_twice_run(1) i by blast
qed

theorem denied_call_reports_zero:
  "fst (do (test_env one_ok) metadata (Some (retry_unless_200 2))
          (Some (deny_host ''169.254.169.254'')) start)
     = (None, 0, Some (Errorf ''request to 169.254.169.254 denied''))
   \<and> invocations start = 0
   \<and> invocations (snd (do (test_env one_ok) metadata (Some (retry_unless_200 2))
                          (Some (deny_host ''169.254.169.254'')) start)) = 0
   \<and> (0 :: int) \<noteq> int (invocations (snd (do (test_env one_ok) metadata (Some (retry_unless_200 2))
                                          (Some (deny_host ''169.254.169.254'')) start))
                         - invocations start) - 1"
  by (simp add: do_def lift_def deny_host_def metadata_def start_def)

text \<open>
  C1. Claimed: for every request that the access policy denies, \<open>Do\<close> and
  \<open>DoTrace\<close> return an error that names the host of the request, without a dispatch
  or a retry and with retry count 0, and an error of the policy itself is passed on in
  the same way. \<open>DoTrace\<close> dumps the outgoing request before it asks the policy:
  when that dump fails it returns the dump's error, which does not name the host, and no
  trace. As amended: when the access policy answers \<open>false\<close>, \<open>do\<close> and \<open>Do\<close>
  return no response and the error \<open>request to HOST denied\<close> for the host of the
  request, and \<open>DoTrace\<close>, when its dump of the request succeeded, returns a trace
  with \<open>Retries = 0\<close> and no response, with that error; when the policy itself
  fails, its error is returned in the same way; when the dump of the request fails,
  \<open>DoTrace\<close> returns the dump's error and no trace. In each case the execution
  afterwards differs from the one before only in what the policy and the clock did to
  the world: the Requestor was not invoked and nothing slept.
\<close>

theorem access_refused_no_dispatch:
  "(Allow a request (world e) = ((allowed, err), w) \<and> (err \<noteq> None \<or> \<not> allowed) \<longrightarrow>
      do env request retries (Some a) e
        = ((None, 0, if err \<noteq> None then err
                     else Some (Errorf (''request to '' @ Hostname request @ '' denied''))),
           e\<lparr>world := w\<rparr>)
      \<and> Do env request retries (Some a) e
        = ((None, if err \<noteq> None then err
                  else Some (Errorf (''request to '' @ Hostname request @ '' denied''))),
           e\<lparr>world := w\<rparr>))
   \<and> (DumpRequestOut env request = (dump, None) \<and> Now env (world e) = (began, wa)
       \<and> Allow a request wa = ((allowed, err), w) \<and> (err \<noteq> None \<or> \<not> allowed)
       \<and> Now env w = (ended, wb) \<longrightarrow>
      DoTrace env request retries (Some a) m e
        = (Return (Some \<lparr>Request = request, RequestTrace = dump, Response = None,
                          ResponseTrace = [], ResponseBody = [], StartTime = began, EndTime = ended,
                          Retries = 0\<rparr>,
                   if err \<noteq> None then err
                   else Some (Errorf (''request to '' @ Hostname request @ '' denied''))),
           e\<lparr>world := wb\<rparr>))
   \<and> (DumpRequestOut env request = (dump, Some derr) \<longrightarrow>
      DoTrace env request retries (Some a) m e = (Return (None, Some derr), e))"
  by (auto simp: do_def Do_def DoTrace_def lift_def)

theorem access_refused_no_dispatch_witness:
  "do (test_env one_ok) metadata (Some (retry_unless_200 2)) (Some (deny_host ''169.254.169.254'')) start
     = ((None, 0, Some (Errorf ''request to 169.254.169.254 denied'')), start)
   \<and> Do (test_env one_ok) metadata (Some (retry_unless_200 2)) (Some (deny_host ''169.254.169.254'')) start
     = ((None, Some (Errorf ''request to 169.254.169.254 denied'')), start)
   \<and> do (test_env one_ok) metadata (Some (retry_unless_200 2)) (Some broken_access) start
     = ((None, 0, Some (Failure ''lookup failed'')), start)
   \<and> DoTrace (test_env one_ok) metadata (Some (retry_unless_200 2)) (Some (deny_host ''169.254.169.254'')) 10 start
     = (Return (Some \<lparr>Request = metadata,
                       RequestTrace = B ''GET http://169.254.169.254/latest'' @ crlfcrlf,
                       Response = None, ResponseTrace = [], ResponseBody = [],
                       StartTime = 1000, EndTime = 1001, Retries = 0\<rparr>,
                Some (Errorf ''request to 169.254.169.254 denied'')),
        later 2 start)
   \<and> DoTrace no_dump_env metadata (Some (retry_unless_200 2)) (Some (deny_host ''169.254.169.254'')) 10 start
     = (Return (None, Some (Failure ''unsupported protocol scheme'')), start)
   \<and> invocations start = 0 \<and> invocations (later 2 start) = 0"
proof -
  let ?deny = "deny_host ''169.254.169.254''"
  have a1: "Allow ?deny metadata (world start) = ((False, None), world start)"
    by (simp add: deny_host_def metadata_def)
  have a2: "Allow broken_access metadata (world start)
              = ((False, Some (Failure ''lookup failed'')), world start)"
    by (simp add: broken_access_def)
  have s: "start\<lparr>world := world start\<rparr> = start" by simp
  have h: "Hostname metadata = ''169.254.169.254''" by (simp add: metadata_def)
  note t1 = access_refused_no_dispatch[where a = ?deny and request = metadata and e = start
      and allowed = False and err = None and w = "world start" and env = "test_env one_ok"
      and retries = "Some (retry_unless_200 2)", THEN conjunct1, rule_format]
  note t2 = access_refused_no_dispatch[where a = broken_access and request = metadata and e = start
      and allowed = False and err = "Some (Failure ''lookup failed'')" and w = "world start"
      and env = "test_env one_ok" and retries = "Some (retry_unless_200 2)", THEN conjunct1, rule_format]
  have d1: "do (test_env one_ok) metadata (Some (retry_unless_200 2)) (Some ?deny) start
     = ((None, 0, Some (Errorf ''request to 169.254.169.254 denied'')), start)"
    and d2: "Do (test_env one_ok) metadata (Some (retry_unless_200 2)) (Some ?deny) start
     = ((None, Some (Errorf ''request to 169.254.169.254 denied'')), start)"
    using t1 a1 by (simp_all add: s h)
  have d3: "do (test_env one_ok) metadata (Some (retry_unless_200 2)) (Some broken_access) start
     = ((None, 0, Some (Failure ''lookup failed'')), start)"
    using t2 a2 by (simp add: s)
  have n0: "Now (test_env one_ok) (world start) = (1000, world (later 1 start))"
    by (simp add: test_env_def start_def later_def)
  have a3: "Allow ?deny metadata (world (later 1 start)) = ((False, None), world (later 1 start))"
    by (simp add: deny_host_def metadata_def)
  have n1: "Now (test_env one_ok) (world (later 1 start)) = (1001, world (later 2 start))"
    by (simp add: test_env_def start_def later_def)
  have dump: "DumpRequestOut (test_env one_ok) metadata
      = (B ''GET http://169.254.169.254/latest'' @ crlfcrlf, None)"
    by (simp add: test_env_def metadata_def)
  have l: "start\<lparr>world := world (later 2 start)\<rparr> = later 2 start"
    by (simp add: later_def)
  note t3 = access_refused_no_dispatch[where a = ?deny and request = metadata and e = start
      and allowed = False and err = None and w = "world (later 1 start)" and env = "test_env one_ok"
      and retries = "Some (retry_unless_200 2)" and m = 10 and wa = "world (later 1 start)"
      and wb = "world (later 2 start)" and began = 1000 and ended = 1001
      and dump = "B ''GET http://169.254.169.254/latest'' @ crlfcrlf",
      THEN conjunct2, THEN conjunct1, rule_format]
  have d4: "DoTrace (test_env one_ok) metadata (Some (retry_unless_200 2)) (Some ?deny) 10 start
     = (Return (Some \<lparr>Request = metadata,
                       RequestTrace = B ''GET http://169.254.169.254/latest'' @ crlfcrlf,
                       Response = None, ResponseTrace = [], ResponseBody = [],
                       StartTime = 1000, EndTime = 1001, Retries = 0\<rparr>,
                Some (Errorf ''request to 169.254.169.254 denied'')),
        later 2 start)"
    using t3 dump n0 a3 n1 by (simp add: l h)
  have nd: "DumpRequestOut no_dump_env metadata = ([], Some (Failure ''unsupported protocol scheme''))"
    by (simp add: no_dump_env_def)
  have d5: "DoTrace no_dump_env metadata (Some (retry_unless_200 2)) (Some ?deny) 10 start
     = (Return (None, Some (Failure ''unsupported protocol scheme'')), start)"
    using access_refused_no_dispatch[where env = no_dump_env and request = metadata
      and dump = "[]" and derr = "Failure ''unsupported protocol scheme''" and a = ?deny
      and retries = "Some (retry_unless_200 2)" and m = 10 and e = start,
      THEN conjunct2, THEN conjunct2, rule_format, OF nd] .
  have "invocations start = 0" "invocations (later 2 start) = 0"
    by (simp_all add: start_def later_def)
  with d1 d2 d3 d4 d5 show ?thesis by blast
qed

theorem denied_request_dump_failure:
  "Allow (deny_host ''169.254.169.254'') metadata (world start) = ((False, None), world start)
   \<and> Hostname metadata = ''169.254.169.254''
   \<and> DoTrace no_dump_env metadata (Some (retry_unless_200 2)) (Some (deny_host ''169.254.169.254'')) 10 start
     = (Return (None, Some (Failure ''unsupported protocol scheme'')), start)"
  by (simp add: DoTrace_def no_dump_env_def deny_host_def metadata_def)

text \<open>
  C9. When dumping the outgoing request fails, \<open>DoTrace\<close> returns no trace and the
  dump's error, and the execution is as before: no dispatch, no sleep, no reading of the
  clock.
\<close>

theorem request_dump_failure:
  "DumpRequestOut env request = (dump, Some err) \<Longrightarrow>
   DoTrace env request retries access m e = (Return (None, Some err), e)"
  by (simp add: DoTrace_def)


theorem request_dump_failure_witness:
  "DumpRequestOut no_dump_env GET = ([], Some (Failure ''unsupported protocol scheme''))
   \<and> DoTrace no_dump_env GET (Some (retry_unless_200 2)) None 10 start
       = (Return (None, Some (Failure ''unsupported protocol scheme'')), start)
   \<and> invocations start = 0"
proof -
  have d: "DumpRequestOut no_dump_env GET = ([], Some (Failure ''unsupported protocol scheme''))"
    by (simp add: no_dump_env_def)
  from request_dump_failure[OF d] d show ?thesis by (simp add: start_def)
qed


section \<open>Properties of reading a body\<close>

subsection \<open>64-bit signed arithmetic\<close>

lemma sint_of_nat_small:
  assumes "int m < 2 ^ 63"
  shows "sint (of_nat m :: 64 word) = int m"
proof -
  have "sint (word_of_int (int m) :: 64 word) = signed_take_bit (LENGTH(64) - 1) (int m)"
    by (rule sint_sbintrunc')
  moreover have "signed_take_bit 63 (int m) = int m"
    using assms by (intro signed_take_bit_int_eq_self) auto
  ultimately show ?thesis by simp
qed

lemma sint_sub_of_nat:
  fixes n :: "64 word"
  assumes "0 < sint n" and "int m \<le> sint n"
  shows "sint (n - of_nat m) = sint n - int m"
proof -
  have b: "sint n < 2 ^ 63" using sint_lt[of n] by simp
  have m: "int m < 2 ^ 63" using assms b by linarith
  have "sint (n - of_nat m) = signed_take_bit 63 (sint n - sint (of_nat m :: 64 word))"
    by (simp add: sint_word_diff)
  also have "\<dots> = signed_take_bit 63 (sint n - int m)" using sint_of_nat_small[OF m] by simp
  also have "\<dots> = sint n - int m"
    using assms b by (intro signed_take_bit_int_eq_self) auto
  finally show ?thesis .
qed

lemma sint_add_one:
  fixes n :: "64 word"
  assumes "sint n < 2 ^ 63 - 1"
  shows "sint (n + 1) = sint n + 1"
proof -
  have g: "- (2 ^ 63) \<le> sint n" using sint_ge[of n] by simp
  have "sint (n + 1) = signed_take_bit 63 (sint n + sint (1 :: 64 word))"
    by (simp add: sint_word_add)
  also have "\<dots> = signed_take_bit 63 (sint n + 1)" by simp
  also have "\<dots> = sint n + 1" using assms g by (intro signed_take_bit_int_eq_self) auto
  finally show ?thesis .
qed

text \<open>Adding 1 either gives the next integer or wraps around to the least one.\<close>

lemma sint_succ_cases: "sint (m + 1) \<le> 0 \<or> sint (m + 1) = sint m + 1" for m :: "64 word"
proof (cases "sint m < 2 ^ 63 - 1")
  case True
  then show ?thesis using sint_add_one[of m] by simp
next
  case False
  then have "sint m = 2 ^ 63 - 1" using sint_lt[of m] by simp
  then have "sint (m + 1) = signed_take_bit 63 (2 ^ 63)" by (simp add: sint_word_add)
  then show ?thesis by simp
qed

subsection \<open>What ReadAll returns\<close>

lemma bufsize_pos: "0 < bufsize"
  by (simp add: bufsize_def)

lemma ReadAll_from_body:
  "ReadAll_from (BodyReader s) b =
     (if closed s then ((b, Some ErrBodyReadAfterClose), BodyReader s)
      else ((b @ pending s, if ending s = EOF then None else Some (ending s)),
            BodyReader (s\<lparr>pending := []\<rparr>)))"
proof (induction "length (pending s)" arbitrary: s b rule: less_induct)
  case less
  show ?case
  proof (cases "closed s \<or> pending s = []")
    case True
    then show ?thesis by (subst ReadAll_from.simps) auto
  next
    case False
    let ?s' = "s\<lparr>pending := drop bufsize (pending s)\<rparr>"
    have "length (pending ?s') < length (pending s)" using False bufsize_pos by simp
    from less[OF this, of "b @ take bufsize (pending s)"] False
    show ?thesis by (subst ReadAll_from.simps) simp
  qed
qed

text \<open>One Read of a LimitedReader over an open body that has bytes left.\<close>

lemma Read_limited_step:
  assumes "0 < sint n" and "\<not> closed s" and "pending s \<noteq> []" and "0 < k"
  defines "j \<equiv> min k (nat (sint n))"
  shows "Read k (LimitedReader (BodyReader s) n) =
     ((take j (pending s), None),
      LimitedReader (BodyReader (s\<lparr>pending := drop j (pending s)\<rparr>))
        (n - of_nat (min j (length (pending s)))))"
proof -
  have "(if sint n < int k then nat (sint n) else k) = j"
    using assms(1) by (auto simp: j_def min_def)
  then show ?thesis using assms(1-3) by (simp add: Let_def min.commute)
qed

lemma ReadAll_from_limited:
  "ReadAll_from (LimitedReader (BodyReader s) n) b =
     (if sint n \<le> 0 then ((b, None), LimitedReader (BodyReader s) n)
      else if closed s then ((b, Some ErrBodyReadAfterClose), LimitedReader (BodyReader s) n)
      else if nat (sint n) \<le> length (pending s)
      then ((b @ take (nat (sint n)) (pending s), None),
            LimitedReader (BodyReader (s\<lparr>pending := drop (nat (sint n)) (pending s)\<rparr>)) 0)
      else ((b @ pending s, if ending s = EOF then None else Some (ending s)),
            LimitedReader (BodyReader (s\<lparr>pending := []\<rparr>)) (n - of_nat (length (pending s)))))"
proof (induction "length (pending s)" arbitrary: s n b rule: less_induct)
  case less
  show ?case
  proof (cases "sint n \<le> 0 \<or> closed s \<or> pending s = []")
    case True
    then show ?thesis by (subst ReadAll_from.simps) (auto simp: Let_def)
  next
    case False
    then have n: "0 < sint n" and o: "\<not> closed s" and ne: "pending s \<noteq> []" by auto
    define K where "K = nat (sint n)"
    define P where "P = pending s"
    define j where "j = min bufsize K"
    define m where "m = min j (length P)"
    let ?s' = "s\<lparr>pending := drop j P\<rparr>"
    let ?n' = "n - of_nat m"
    have K: "0 < K" "sint n = int K" using n by (simp_all add: K_def)
    have j: "0 < j" "j \<le> K" using K bufsize_pos by (simp_all add: j_def)
    have m: "0 < m" "m \<le> j" "m \<le> length P" using j ne by (auto simp: m_def P_def)
    have step: "Read bufsize (LimitedReader (BodyReader s) n) =
        ((take j P, None), LimitedReader (BodyReader ?s') ?n')"
      using Read_limited_step[OF n o ne bufsize_pos] by (simp add: j_def K_def P_def m_def)
    have sn': "sint ?n' = int K - int m"
      using sint_sub_of_nat[of n m] n m j K by simp
    have shorter: "length (pending ?s') < length (pending s)" using j ne by (simp add: P_def)
    have unfold: "ReadAll_from (LimitedReader (BodyReader s) n) b =
        ReadAll_from (LimitedReader (BodyReader ?s') ?n') (b @ take j P)"
      by (subst ReadAll_from.simps) (simp only: step prod.case option.case)
    note IH = less[OF shorter, of ?n' "b @ take j P"]
    show ?thesis
    proof (cases "K \<le> length P")
      case fits: True
      show ?thesis
      proof (cases "m = K")
        case True
        then have "sint ?n' = 0" using sn' by simp
        then have z: "?n' = 0" by (simp add: signed_eq_0_iff)
        have "j = K" using True m j by simp
        then show ?thesis unfolding unfold IH using n o fits z \<open>sint ?n' = 0\<close>
          by (simp add: K_def P_def)
      next
        case False
        then have mj: "m = j" "j < K" "j \<le> length P" using m j fits by (auto simp: m_def)
        have pos: "0 < sint ?n'" using sn' mj by simp
        have nat': "nat (sint ?n') = K - j" using sn' mj by simp
        have le: "K - j \<le> length (drop j P)" using fits mj by simp
        have t: "take j P @ take (K - j) (drop j P) = take K P"
          using mj by (metis add_diff_inverse_nat less_imp_le_nat not_less take_add)
        have d: "drop (K - j) (drop j P) = drop K P" using mj by simp
        show ?thesis unfolding unfold IH using n o fits pos nat' le t d
          by (simp add: K_def[symmetric] P_def[symmetric])
      qed
    next
      case short: False
      then have l: "length P < K" by simp
      have pos: "0 < sint ?n'" using sn' m l by simp
      have nat': "nat (sint ?n') = K - m" using sn' m l by simp
      have nle: "\<not> K - m \<le> length (drop j P)" using l m by (auto simp: m_def)
      have "m + length (drop j P) = length P" by (auto simp: m_def min_def)
      then have "of_nat m + of_nat (length (drop j P)) = (of_nat (length P) :: 64 word)"
        by (metis of_nat_add)
      then have w: "?n' - of_nat (length (drop j P)) = n - of_nat (length P)"
        by (metis diff_diff_add)
      show ?thesis unfolding unfold IH using n o short pos nat' nle w
        by (simp add: K_def[symmetric] P_def[symmetric])
    qed
  qed
qed


subsection \<open>What readBody returns\<close>

lemma readBody_no_limit:
  assumes "streams w (Body r) = Some s" and "sint m \<le> 0"
  shows "readBody r m w =
     (if closed s
      then (Return ([], Some ErrBodyReadAfterClose),
            w\<lparr>streams := (streams w)(Body r \<mapsto> s\<lparr>closed := True\<rparr>)\<rparr>)
      else (Return (pending s, if ending s = EOF then None else Some (ending s)),
            w\<lparr>streams := (streams w)(Body r \<mapsto> s\<lparr>pending := [], closed := True\<rparr>)\<rparr>))"
  using assms by (simp add: readBody_def ReadAll_def ReadAll_from_body)

lemma readBody_limit:
  assumes "streams w (Body r) = Some s" and "0 < sint m"
  shows "readBody r m w =
     (if sint (m + 1) \<le> 0
      then (Return ([], Some (exceeds m)),
            w\<lparr>streams := (streams w)(Body r \<mapsto> s\<lparr>closed := True\<rparr>)\<rparr>)
      else if closed s
      then (Return ([], Some ErrBodyReadAfterClose),
            w\<lparr>streams := (streams w)(Body r \<mapsto> s\<lparr>closed := True\<rparr>)\<rparr>)
      else if sint (m + 1) \<le> int (length (pending s))
      then (Return ([], Some (exceeds m)),
            w\<lparr>streams := (streams w)(Body r \<mapsto>
                 s\<lparr>pending := drop (nat (sint (m + 1))) (pending s), closed := True\<rparr>)\<rparr>)
      else (Return (if ending s = EOF then (pending s, None) else ([], Some (ending s))),
            w\<lparr>streams := (streams w)(Body r \<mapsto> s\<lparr>pending := [], closed := True\<rparr>)\<rparr>))"
proof (cases "sint (m + 1) \<le> 0 \<or> closed s \<or> sint (m + 1) \<le> int (length (pending s))")
  case True
  then show ?thesis using assms
    by (auto simp: readBody_def ReadAll_def ReadAll_from_limited exceeds_def nat_le_iff)
next
  case False
  then have p: "0 < sint (m + 1)" and l: "int (length (pending s)) < sint (m + 1)" by auto
  have "sint (m + 1 - of_nat (length (pending s))) = sint (m + 1) - int (length (pending s))"
    using sint_sub_of_nat[OF p, of "length (pending s)"] l by simp
  then have "0 < sint (m + 1 - of_nat (length (pending s)))" using l by simp
  then show ?thesis using assms False
    by (auto simp: readBody_def ReadAll_def ReadAll_from_limited nat_le_iff)
qed

lemma readBody_nil_body: "streams w (Body r) = None \<Longrightarrow> readBody r m w = (Panic, w)"
  by (simp add: readBody_def)

lemma readBody_closes:
  assumes "streams w (Body r) = Some s"
  shows "\<exists>res s'. readBody r m w = (Return res, w\<lparr>streams := (streams w)(Body r \<mapsto> s')\<rparr>)
           \<and> closed s'
           \<and> (sint m \<le> 0 \<and> \<not> closed s \<longrightarrow> pending s' = [])
           \<and> (0 < sint m \<longrightarrow> int (length (pending s)) \<le> int (length (pending s')) + sint m + 1)"
proof (cases "0 < sint m")
  case False
  then show ?thesis using readBody_no_limit[OF assms, of m] by auto
next
  case True
  from sint_succ_cases[of m] show ?thesis using True readBody_limit[OF assms True] by auto
qed

lemma readBody_eq:
  "readBody r m w =
     (case streams w (Body r) of
        None \<Rightarrow> (Panic, w)
      | Some s \<Rightarrow>
          if 0 < sint m then
            if sint (m + 1) \<le> 0
            then (Return ([], Some (exceeds m)),
                  w\<lparr>streams := (streams w)(Body r \<mapsto> s\<lparr>closed := True\<rparr>)\<rparr>)
            else if closed s
            then (Return ([], Some ErrBodyReadAfterClose),
                  w\<lparr>streams := (streams w)(Body r \<mapsto> s\<lparr>closed := True\<rparr>)\<rparr>)
            else if sint (m + 1) \<le> int (length (pending s))
            then (Return ([], Some (exceeds m)),
                  w\<lparr>streams := (streams w)(Body r \<mapsto>
                       s\<lparr>pending := drop (nat (sint (m + 1))) (pending s), closed := True\<rparr>)\<rparr>)
            else (Return (if ending s = EOF then (pending s, None) else ([], Some (ending s))),
                  w\<lparr>streams := (streams w)(Body r \<mapsto> s\<lparr>pending := [], closed := True\<rparr>)\<rparr>)
          else if closed s
          then (Return ([], Some ErrBodyReadAfterClose),
                w\<lparr>streams := (streams w)(Body r \<mapsto> s\<lparr>closed := True\<rparr>)\<rparr>)
          else (Return (pending s, if ending s = EOF then None else Some (ending s)),
                w\<lparr>streams := (streams w)(Body r \<mapsto> s\<lparr>pending := [], closed := True\<rparr>)\<rparr>))"
proof (cases "streams w (Body r)")
  case None
  then show ?thesis by (simp add: readBody_nil_body)
next
  case (Some s)
  show ?thesis
  proof (cases "0 < sint m")
    case True
    show ?thesis unfolding readBody_limit[OF Some True] using Some True by simp
  next
    case False
    then have le: "sint m \<le> 0" by simp
    show ?thesis unfolding readBody_no_limit[OF Some le] using Some False by simp
  qed
qed


lemma Itoa_MaxInt64: "Itoa 9223372036854775807 = ''9223372036854775807''"
  by (simp add: Itoa_def decimal.simps digit_def)

lemma Itoa_10: "Itoa 10 = ''10''"
  by (simp add: Itoa_def decimal.simps digit_def)

text \<open>
  The boundary of the limit, for a body that is open and ends with \<open>EOF\<close>: with a
  limit \<open>0 < m < 2^63 - 1\<close> a body of at most \<open>m\<close> bytes is returned whole; with any
  limit \<open>m > 0\<close> a body longer than \<open>m\<close> bytes gives the size error that names
  \<open>m\<close>, and no bytes; with \<open>m \<le> 0\<close> the body is returned whole whatever its
  length.
\<close>

theorem readBody_boundary:
  assumes "streams w (Body r) = Some s" and "\<not> closed s"
  shows
   "(0 < sint m \<and> sint m < 2 ^ 63 - 1 \<and> ending s = EOF \<and> int (length (pending s)) \<le> sint m \<longrightarrow>
       fst (readBody r m w) = Return (pending s, None))
    \<and> (0 < sint m \<and> sint m < int (length (pending s)) \<longrightarrow>
       fst (readBody r m w) = Return ([], Some (Errorf (''webhook response body exceeds ''
                                    @ Itoa (sint m) @ '' bytes limit''))))
    \<and> (sint m \<le> 0 \<and> ending s = EOF \<longrightarrow> fst (readBody r m w) = Return (pending s, None))"
proof (intro conjI impI)
  assume a: "0 < sint m \<and> sint m < 2 ^ 63 - 1 \<and> ending s = EOF \<and> int (length (pending s)) \<le> sint m"
  then have "sint (m + 1) = sint m + 1" using sint_add_one[of m] by simp
  then show "fst (readBody r m w) = Return (pending s, None)"
    using a assms readBody_limit[OF assms(1), of m] by simp
next
  assume a: "0 < sint m \<and> sint m < int (length (pending s))"
  from sint_succ_cases[of m] show "fst (readBody r m w) = Return ([], Some (Errorf (''webhook response body exceeds ''
                                    @ Itoa (sint m) @ '' bytes limit'')))"
    using a assms readBody_limit[OF assms(1), of m] by (auto simp: exceeds_def)
next
  assume "sint m \<le> 0 \<and> ending s = EOF"
  then show "fst (readBody r m w) = Return (pending s, None)"
    using assms readBody_no_limit[OF assms(1), of m] by simp
qed


theorem readBody_boundary_witness:
  "fst (readBody ok_response 10 (serving (B ''0123456789''))) = Return (B ''0123456789'', None)
   \<and> fst (readBody ok_response 10 (serving (B ''0123456789X'')))
       = Return ([], Some (Errorf ''webhook response body exceeds 10 bytes limit''))
   \<and> fst (readBody ok_response 0 (serving (B ''0123456789X''))) = Return (B ''0123456789X'', None)
   \<and> fst (readBody ok_response (- 1) (serving (B ''0123456789X''))) = Return (B ''0123456789X'', None)"
proof -
  have st: "streams (serving body) (Body ok_response)
              = Some \<lparr>pending = body, ending = EOF, closed = False\<rparr>" for body
    by (simp add: serving_def ok_response_def)
  have o: "\<not> closed \<lparr>pending = body, ending = EOF, closed = False\<rparr>" for body :: bytes by simp
  note th = readBody_boundary[OF st o]
  have 1: "fst (readBody ok_response 10 (serving (B ''0123456789''))) = Return (B ''0123456789'', None)"
    using th[of 10 "B ''0123456789''"] by (simp add: B_def)
  have 2: "fst (readBody ok_response 10 (serving (B ''0123456789X'')))
       = Return ([], Some (Errorf ''webhook response body exceeds 10 bytes limit''))"
    using th[of 10 "B ''0123456789X''"] by (simp add: B_def Itoa_10)
  have 3: "fst (readBody ok_response 0 (serving (B ''0123456789X''))) = Return (B ''0123456789X'', None)"
    using th[of 0 "B ''0123456789X''"] by simp
  have 4: "fst (readBody ok_response (- 1) (serving (B ''0123456789X''))) = Return (B ''0123456789X'', None)"
    using th[of "- 1" "B ''0123456789X''"] by simp
  show ?thesis using 1 2 3 4 by blast
qed


text \<open>
  C3. Claimed: for every \<open>maxBodyBytes > 0\<close> a body of exactly \<open>maxBodyBytes\<close>
  bytes is read and returned whole, a body of \<open>maxBodyBytes + 1\<close> or more bytes gives
  the size error that names the limit and no bytes, and for \<open>maxBodyBytes \<le> 0\<close> a
  body of any length is returned whole. All of it holds for the limits below
  \<open>2^63 - 1\<close>, as the theorem above says. The first part fails at the largest
  limit, \<open>maxBodyBytes = 2^63 - 1\<close>: there \<open>int64(maxBodyBytes)+1\<close> wraps around
  to \<open>-2^63\<close>, the \<open>LimitedReader\<close> reports \<open>EOF\<close> before it reads a byte and
  \<open>N \<le> 0\<close> holds, so that every body, one of exactly \<open>2^63 - 1\<close> bytes and an
  empty one alike, is refused as too big.
\<close>

theorem readBody_at_MaxInt64:
  "length huge_body = 2 ^ 63 - 1
   \<and> sint (0x7FFFFFFFFFFFFFFF :: 64 word) = 2 ^ 63 - 1
   \<and> fst (readBody ok_response 0x7FFFFFFFFFFFFFFF (serving huge_body))
       = Return ([], Some (Errorf ''webhook response body exceeds 9223372036854775807 bytes limit''))
   \<and> fst (readBody ok_response 0x7FFFFFFFFFFFFFFF (serving []))
       = Return ([], Some (Errorf ''webhook response body exceeds 9223372036854775807 bytes limit''))"
proof -
  have s: "sint (0x7FFFFFFFFFFFFFFF :: 64 word) = 9223372036854775807" by simp
  have o: "sint ((0x7FFFFFFFFFFFFFFF :: 64 word) + 1) \<le> 0" by simp
  have e: "exceeds 0x7FFFFFFFFFFFFFFF
             = Errorf ''webhook response body exceeds 9223372036854775807 bytes limit''"
    unfolding exceeds_def s Itoa_MaxInt64 by simp
  have st: "streams (serving body) (Body ok_response)
              = Some \<lparr>pending = body, ending = EOF, closed = False\<rparr>" for body
    by (simp add: serving_def ok_response_def)
  have "fst (readBody ok_response 0x7FFFFFFFFFFFFFFF (serving body)) = Return ([], Some (exceeds 0x7FFFFFFFFFFFFFFF))"
    for body
    using readBody_limit[OF st, of "0x7FFFFFFFFFFFFFFF" body] o by (simp del: sint_sbintrunc)
  then show ?thesis using e s by (simp add: huge_body_def)
qed

section \<open>Properties of the trace capture\<close>

lemma do_loop_frame:
  "P (world e) \<Longrightarrow> do_loop env request retries retry e = (res, e') \<Longrightarrow>
   (\<And>req w r w'. P w \<Longrightarrow> currentRequestor env req w = (r, w') \<Longrightarrow> P w') \<Longrightarrow>
   (\<And>rc i w d w'. retries = Some rc \<Longrightarrow> P w \<Longrightarrow> Backoff rc i w = (d, w') \<Longrightarrow> P w') \<Longrightarrow>
   (\<And>rc req resp d w b w'. retries = Some rc \<Longrightarrow> P w \<Longrightarrow>
              ShouldRetry rc req resp d w = (b, w') \<Longrightarrow> P w') \<Longrightarrow>
   P (world e')"
proof (induction env request retries retry e rule: do_loop.induct)
  case (1 env request retries retry e)
  obtain r0 er0 e1 where d: "dispatch env request e = ((r0, er0), e1)"
    by (metis prod.exhaust)
  have p1: "P (world e1)"
    using d 1(2) 1(4)[of "world e" request] by (auto simp: dispatch_def split: prod.splits)
  show ?case
  proof (cases retries)
    case None
    with 1(3) d p1 show ?thesis by (simp add: do_loop.simps)
  next
    case (Some rc)
    show ?thesis
    proof (cases "retry < MaxRetries rc")
      case False
      with 1(3) d p1 Some show ?thesis by (simp add: do_loop.simps)
    next
      case True
      obtain backoff e2 where b: "lift (Backoff rc retry) e1 = (backoff, e2)"
        by (metis prod.exhaust)
      obtain again e3 where s: "lift (ShouldRetry rc request r0 backoff) e2 = (again, e3)"
        by (metis prod.exhaust)
      have p2: "P (world e2)"
        using b p1 1(5)[OF Some, of "world e1" retry] by (auto simp: lift_def split: prod.splits)
      have p3: "P (world e3)"
        using s p2 1(6)[OF Some, of "world e2" request r0 backoff]
        by (auto simp: lift_def split: prod.splits)
      show ?thesis
      proof (cases again)
        case False
        with 1(3) d b s Some True p3 show ?thesis by (simp add: do_loop.simps)
      next
        case again: True
        from 1(3) d b s Some True again
        have rec: "do_loop env request retries (retry + 1) (Sleep backoff e3) = (res, e')"
          by (simp add: do_loop.simps)
        have "P (world (Sleep backoff e3))" using p3 by (simp add: Sleep_def)
        from 1(1)[OF d[symmetric] refl Some True b[symmetric] s[symmetric] again this rec 1(4) 1(5) 1(6)]
        show ?thesis by simp
      qed
    qed
  qed
qed


lemma do_frame:
  assumes "P (world e)" and "do env request retries access e = (res, e')"
    and R: "\<And>req w r w'. P w \<Longrightarrow> currentRequestor env req w = (r, w') \<Longrightarrow> P w'"
    and B: "\<And>rc i w d w'. retries = Some rc \<Longrightarrow> P w \<Longrightarrow> Backoff rc i w = (d, w') \<Longrightarrow> P w'"
    and S: "\<And>rc req resp d w b w'. retries = Some rc \<Longrightarrow> P w \<Longrightarrow>
              ShouldRetry rc req resp d w = (b, w') \<Longrightarrow> P w'"
    and A: "\<And>a req w x w'. access = Some a \<Longrightarrow> P w \<Longrightarrow> Allow a req w = (x, w') \<Longrightarrow> P w'"
  shows "P (world e')"
proof (cases access)
  case None
  with assms(2) have "do_loop env request retries 0 e = (res, e')" by (simp add: do_def)
  from assms(1) this show ?thesis
  proof (rule do_loop_frame)
    show "\<And>req w r w'. P w \<Longrightarrow> currentRequestor env req w = (r, w') \<Longrightarrow> P w'" by (rule R)
    show "\<And>rc i w d w'. retries = Some rc \<Longrightarrow> P w \<Longrightarrow> Backoff rc i w = (d, w') \<Longrightarrow> P w'"
      by (rule B)
    show "\<And>rc req resp d w b w'. retries = Some rc \<Longrightarrow> P w \<Longrightarrow>
              ShouldRetry rc req resp d w = (b, w') \<Longrightarrow> P w'" by (rule S)
  qed
next
  case (Some a)
  obtain allowed aerr e0 where l: "lift (Allow a request) e = ((allowed, aerr), e0)"
    by (metis prod.exhaust)
  have p0: "P (world e0)"
    using l assms(1) A[OF Some, of "world e" request] by (auto simp: lift_def split: prod.splits)
  show ?thesis
  proof (cases "aerr \<noteq> None \<or> \<not> allowed")
    case True
    with assms(2) Some l p0 show ?thesis by (auto simp: do_def split: if_splits)
  next
    case False
    with assms(2) Some l have "do_loop env request retries 0 e0 = (res, e')"
      by (simp add: do_def)
    from p0 this show ?thesis
    proof (rule do_loop_frame)
      show "\<And>req w r w'. P w \<Longrightarrow> currentRequestor env req w = (r, w') \<Longrightarrow> P w'" by (rule R)
      show "\<And>rc i w d w'. retries = Some rc \<Longrightarrow> P w \<Longrightarrow> Backoff rc i w = (d, w') \<Longrightarrow> P w'"
        by (rule B)
      show "\<And>rc req resp d w b w'. retries = Some rc \<Longrightarrow> P w \<Longrightarrow>
              ShouldRetry rc req resp d w = (b, w') \<Longrightarrow> P w'" by (rule S)
    qed
  qed
qed

lemma DoTrace_body_closed:
  assumes "DoTrace env request retries access m e = (Return (Some t, err), e')"
    and "Response t = Some r" and "snd (DumpResponse env r) = None"
  shows "\<exists>s'. streams (world e') (Body r) = Some s' \<and> closed s'"
proof -
  obtain dump derr where d: "DumpRequestOut env request = (dump, derr)" by (metis prod.exhaust)
  obtain t0 e0 where n0: "lift (Now env) e = (t0, e0)" by (metis prod.exhaust)
  obtain response n derr' e1 where dd: "do env request retries access e0 = ((response, n, derr'), e1)"
    by (metis prod.exhaust)
  obtain t1 e2 where n1: "lift (Now env) e1 = (t1, e2)" by (metis prod.exhaust)
  obtain hdr herr where h: "DumpResponse env r = (hdr, herr)" by (metis prod.exhaust)
  from assms(1,2) d n0 dd n1
  have ok: "derr = None" "derr' = None" "response = Some r"
    by (auto simp: DoTrace_def Let_def split: if_splits prod.splits outcome.splits)
  have herr: "herr = None" using assms(3) h by simp
  show ?thesis
  proof (cases "streams (world e2) (Body r)")
    case None
    from readBody_nil_body[OF this, of m] assms(1) d n0 dd n1 ok h herr
    show ?thesis by (simp add: DoTrace_def dumpResponse_def lift_def)
  next
    case (Some s)
    from readBody_closes[OF this, of m] obtain res s' where
      rb: "readBody r m (world e2) = (Return res, (world e2)\<lparr>streams := (streams (world e2))(Body r \<mapsto> s')\<rparr>)"
      and c: "closed s'" by blast
    from assms(1) d n0 dd n1 ok h herr rb
    have "world e' = (world e2)\<lparr>streams := (streams (world e2))(Body r \<mapsto> s')\<rparr>"
      by (cases res) (auto simp: DoTrace_def dumpResponse_def lift_def split: if_splits)
    then show ?thesis using c by simp
  qed
qed

lemma busy_then_ok_run:
  "fst (do (test_env busy_then_ok) GET (Some (retry_unless_200 2)) None start)
     = (Some \<lparr>StatusCode = 200, Body = 1\<rparr>, 1, None)"
  "leaks (rest (world (snd (do (test_env busy_then_ok) GET (Some (retry_unless_200 2)) None start))))
     = [[], [0]]"
  "streams (world (snd (do (test_env busy_then_ok) GET (Some (retry_unless_200 2)) None start))) 0
     = Some \<lparr>pending = B ''busy'', ending = EOF, closed = False\<rparr>"
  "streams (world (snd (do (test_env busy_then_ok) GET (Some (retry_unless_200 2)) None start))) 1
     = Some \<lparr>pending = B ''ok'', ending = EOF, closed = False\<rparr>"
  by (simp_all add: do_def do_loop.simps doubles busy_then_ok_def)

lemma busy_then_ok_trace:
  "streams (world (snd (DoTrace (test_env busy_then_ok) GET (Some (retry_unless_200 2)) None 10 start))) 0
     = Some \<lparr>pending = B ''busy'', ending = EOF, closed = False\<rparr>"
  "streams (world (snd (DoTrace (test_env busy_then_ok) GET (Some (retry_unless_200 2)) None 10 start))) 1
     = Some \<lparr>pending = [], ending = EOF, closed = True\<rparr>"
  by (simp_all add: DoTrace_def dumpResponse_def readBody_eq do_def do_loop.simps doubles
        busy_then_ok_def B_def)


lemma scripted_all_open:
  "all_open w \<Longrightarrow> scripted script req w = (x, w') \<Longrightarrow> all_open w'"
  by (auto simp: scripted_def all_open_def Let_def split: if_splits step.splits option.splits)

text \<open>
  C4. Claimed: on every path each attempt's response body is drained and closed before
  the call returns or retries. The retry loop has no such step: with a policy that
  retries on the status alone, the body of the response it retried past is still open
  and unread at the next dispatch and after the call, for \<open>do\<close> and for \<open>DoTrace\<close>,
  and \<open>do\<close> hands its last response back with the body open. As amended: the body
  that \<open>DoTrace\<close> reads during trace capture is closed when \<open>readBody\<close> returns, on
  its success exit and on its error exits; it is read to its end when no positive limit
  applies, and at most \<open>maxBodyBytes + 1\<close> bytes of it are read under a limit. So a
  trace that \<open>DoTrace\<close> returns with a response whose header dump succeeded has that
  response's body closed. The loop of \<open>do\<close> does nothing to the world itself: whatever
  the Requestor, the retry policy and the access policy preserve, \<open>do\<close> preserves.
\<close>

theorem body_closed_by_trace_capture:
  "(streams w (Body r) = Some s \<longrightarrow>
      (\<exists>res s'. readBody r m w = (Return res, w\<lparr>streams := (streams w)(Body r \<mapsto> s')\<rparr>)
          \<and> closed s'
          \<and> (sint m \<le> 0 \<and> \<not> closed s \<longrightarrow> pending s' = [])
          \<and> (0 < sint m \<longrightarrow> int (length (pending s)) \<le> int (length (pending s')) + sint m + 1)))
   \<and> (DoTrace env request retries access m e = (Return (Some t, err), e')
        \<and> Response t = Some r \<and> snd (DumpResponse env r) = None \<longrightarrow>
        (\<exists>s'. streams (world e') (Body r) = Some s' \<and> closed s'))
   \<and> ((\<forall>req w x w'. P w \<and> currentRequestor env req w = (x, w') \<longrightarrow> P w')
       \<and> (\<forall>rc i w d w'. retries = Some rc \<and> P w \<and> Backoff rc i w = (d, w') \<longrightarrow> P w')
       \<and> (\<forall>rc req resp d w b w'. retries = Some rc \<and> P w
              \<and> ShouldRetry rc req resp d w = (b, w') \<longrightarrow> P w')
       \<and> (\<forall>a req w x w'. access = Some a \<and> P w \<and> Allow a req w = (x, w') \<longrightarrow> P w')
       \<and> P (world e) \<and> do env request retries access e = (res, e') \<longrightarrow> P (world e'))"
proof (intro conjI impI)
  assume "streams w (Body r) = Some s"
  from readBody_closes[OF this]
  show "\<exists>res s'. readBody r m w = (Return res, w\<lparr>streams := (streams w)(Body r \<mapsto> s')\<rparr>)
          \<and> closed s'
          \<and> (sint m \<le> 0 \<and> \<not> closed s \<longrightarrow> pending s' = [])
          \<and> (0 < sint m \<longrightarrow> int (length (pending s)) \<le> int (length (pending s')) + sint m + 1)" .
next
  assume "DoTrace env request retries access m e = (Return (Some t, err), e')
        \<and> Response t = Some r \<and> snd (DumpResponse env r) = None"
  then show "\<exists>s'. streams (world e') (Body r) = Some s' \<and> closed s'"
    using DoTrace_body_closed by blast
next
  assume a: "(\<forall>req w x w'. P w \<and> currentRequestor env req w = (x, w') \<longrightarrow> P w')
       \<and> (\<forall>rc i w d w'. retries = Some rc \<and> P w \<and> Backoff rc i w = (d, w') \<longrightarrow> P w')
       \<and> (\<forall>rc req resp d w b w'. retries = Some rc \<and> P w
              \<and> ShouldRetry rc req resp d w = (b, w') \<longrightarrow> P w')
       \<and> (\<forall>a req w x w'. access = Some a \<and> P w \<and> Allow a req w = (x, w') \<longrightarrow> P w')
       \<and> P (world e) \<and> do env request retries access e = (res, e')"
  note R = a[THEN conjunct1]
    and B = a[THEN conjunct2, THEN conjunct1]
    and S = a[THEN conjunct2, THEN conjunct2, THEN conjunct1]
    and A = a[THEN conjunct2, THEN conjunct2, THEN conjunct2, THEN conjunct1]
    and p = a[THEN conjunct2, THEN conjunct2, THEN conjunct2, THEN conjunct2, THEN conjunct1]
    and d = a[THEN conjunct2, THEN conjunct2, THEN conjunct2, THEN conjunct2, THEN conjunct2]
  from p d show "P (world e')"
  proof (rule do_frame)
    show "\<And>req w r w'. P w \<Longrightarrow> currentRequestor env req w = (r, w') \<Longrightarrow> P w'" using R by blast
    show "\<And>rc i w d w'. retries = Some rc \<Longrightarrow> P w \<Longrightarrow> Backoff rc i w = (d, w') \<Longrightarrow> P w'"
      using B by blast
    show "\<And>rc req resp d w b w'. retries = Some rc \<Longrightarrow> P w \<Longrightarrow>
              ShouldRetry rc req resp d w = (b, w') \<Longrightarrow> P w'" using S by blast
    show "\<And>a req w x w'. access = Some a \<Longrightarrow> P w \<Longrightarrow> Allow a req w = (x, w') \<Longrightarrow> P w'"
      using A by blast
  qed
qed

theorem body_closed_by_trace_capture_witness:
  "(\<exists>s'. streams (snd (readBody ok_response 10 (serving (B ''hello'')))) (Body ok_response) = Some s'
         \<and> closed s')
   \<and> streams (snd (readBody ok_response 10 (serving (B ''hello'')))) 0
        = Some \<lparr>pending = [], ending = EOF, closed = True\<rparr>
   \<and> all_open (world start)
   \<and> all_open (world (snd (do (test_env busy_then_ok) GET (Some (retry_unless_200 2)) None start)))"
proof -
  let ?s = "\<lparr>pending = B ''hello'', ending = EOF, closed = False\<rparr>"
  have st: "streams (serving (B ''hello'')) (Body ok_response) = Some ?s"
    by (simp add: serving_def ok_response_def)
  from body_closed_by_trace_capture[where w = "serving (B ''hello'')" and r = ok_response
      and s = ?s and m = 10, THEN conjunct1, rule_format, OF st]
  have 1: "\<exists>s'. streams (snd (readBody ok_response 10 (serving (B ''hello'')))) (Body ok_response) = Some s'
         \<and> closed s'"
    by auto
  have 2: "streams (snd (readBody ok_response 10 (serving (B ''hello'')))) 0
        = Some \<lparr>pending = [], ending = EOF, closed = True\<rparr>"
    by (simp add: readBody_eq serving_def ok_response_def B_def)
  have 3: "all_open (world start)" by (simp add: all_open_def start_def)
  let ?run = "do (test_env busy_then_ok) GET (Some (retry_unless_200 2)) None start"
  have R: "\<forall>req w x w'. all_open w \<and> currentRequestor (test_env busy_then_ok) req w = (x, w')
             \<longrightarrow> all_open w'"
    using scripted_all_open by (auto simp: test_env_def)
  have B: "\<forall>rc i w d w'. Some (retry_unless_200 2) = Some rc \<and> all_open w \<and> Backoff rc i w = (d, w')
             \<longrightarrow> all_open w'"
    by (auto simp: retry_unless_200_def)
  have S: "\<forall>rc req resp d w b w'. Some (retry_unless_200 2) = Some rc \<and> all_open w
              \<and> ShouldRetry rc req resp d w = (b, w') \<longrightarrow> all_open w'"
    by (auto simp: retry_unless_200_def)
  have A: "\<forall>a req w x w'. (None :: double AccessConfig option) = Some a \<and> all_open w
              \<and> Allow a req w = (x, w') \<longrightarrow> all_open w'"
    by simp
  have d: "?run = (fst ?run, snd ?run)" by simp
  from body_closed_by_trace_capture[where P = all_open and env = "test_env busy_then_ok"
      and retries = "Some (retry_unless_200 2)" and access = None and e = start
      and request = GET and res = "fst ?run" and e' = "snd ?run",
      THEN conjunct2, THEN conjunct2, rule_format, OF conjI[OF R conjI[OF B conjI[OF S conjI[OF A conjI[OF 3 d]]]]]]
  have 4: "all_open (world (snd ?run))" .
  show ?thesis using 1 2 3 4 by blast
qed

theorem retried_body_left_open:
  "fst (do (test_env busy_then_ok) GET (Some (retry_unless_200 2)) None start)
     = (Some \<lparr>StatusCode = 200, Body = 1\<rparr>, 1, None)
   \<and> leaks (rest (world (snd (do (test_env busy_then_ok) GET (Some (retry_unless_200 2)) None start))))
     = [[], [0]]
   \<and> streams (world (snd (do (test_env busy_then_ok) GET (Some (retry_unless_200 2)) None start))) 0
     = Some \<lparr>pending = B ''busy'', ending = EOF, closed = False\<rparr>
   \<and> streams (world (snd (do (test_env busy_then_ok) GET (Some (retry_unless_200 2)) None start))) 1
     = Some \<lparr>pending = B ''ok'', ending = EOF, closed = False\<rparr>
   \<and> streams (world (snd (DoTrace (test_env busy_then_ok) GET (Some (retry_unless_200 2)) None 10 start))) 0
     = Some \<lparr>pending = B ''busy'', ending = EOF, closed = False\<rparr>"
  using busy_then_ok_run busy_then_ok_trace(1) by blast

text \<open>
  C7. Once \<open>do\<close> has returned a response without error, a failure of the header dump
  or of the body read makes \<open>DoTrace\<close> return the trace together with the error: the
  trace holds the request, its dump, the response, both timestamps and the retry count,
  the header dump when it was made, and an empty \<open>ResponseBody\<close>. With
  \<open>maxBodyBytes = 10\<close> and a body of 11 bytes the error is the size error for 10.
\<close>

theorem DoTrace_partial_trace:
  assumes "DumpRequestOut env request = (dump, None)"
    and "Now env (world e) = (began, wa)"
    and "do env request retries access (e\<lparr>world := wa\<rparr>) = ((Some r, n, None), e1)"
    and "Now env (world e1) = (ended, wb)"
  shows
   "(DumpResponse env r = (hdr, Some err) \<longrightarrow>
       DoTrace env request retries access m e
         = (Return (Some \<lparr>Request = request, RequestTrace = dump, Response = Some r,
                           ResponseTrace = [], ResponseBody = [],
                           StartTime = began, EndTime = ended, Retries = n\<rparr>, Some err),
            e1\<lparr>world := wb\<rparr>))
    \<and> (DumpResponse env r = (hdr, None) \<and> readBody r m wb = (Return (body, Some err), wc) \<longrightarrow>
       DoTrace env request retries access m e
         = (Return (Some \<lparr>Request = request, RequestTrace = dump, Response = Some r,
                           ResponseTrace = hdr, ResponseBody = [],
                           StartTime = began, EndTime = ended, Retries = n\<rparr>, Some err),
            e1\<lparr>world := wc\<rparr>))
    \<and> (DumpResponse env r = (hdr, None) \<and> streams wb (Body r) = Some s \<and> \<not> closed s
        \<and> length (pending s) = 11 \<and> m = 10 \<longrightarrow>
       DoTrace env request retries access m e
         = (Return (Some \<lparr>Request = request, RequestTrace = dump, Response = Some r,
                           ResponseTrace = hdr, ResponseBody = [],
                           StartTime = began, EndTime = ended, Retries = n\<rparr>,
                    Some (Errorf ''webhook response body exceeds 10 bytes limit'')),
            e1\<lparr>world := wb\<lparr>streams := (streams wb)(Body r \<mapsto> s\<lparr>pending := [], closed := True\<rparr>)\<rparr>\<rparr>))"
proof (intro conjI impI)
  assume "DumpResponse env r = (hdr, Some err)"
  then show "DoTrace env request retries access m e
         = (Return (Some \<lparr>Request = request, RequestTrace = dump, Response = Some r,
                           ResponseTrace = [], ResponseBody = [],
                           StartTime = began, EndTime = ended, Retries = n\<rparr>, Some err),
            e1\<lparr>world := wb\<rparr>)"
    using assms by (simp add: DoTrace_def dumpResponse_def lift_def)
next
  assume "DumpResponse env r = (hdr, None) \<and> readBody r m wb = (Return (body, Some err), wc)"
  then show "DoTrace env request retries access m e
         = (Return (Some \<lparr>Request = request, RequestTrace = dump, Response = Some r,
                           ResponseTrace = hdr, ResponseBody = [],
                           StartTime = began, EndTime = ended, Retries = n\<rparr>, Some err),
            e1\<lparr>world := wc\<rparr>)"
    using assms by (simp add: DoTrace_def dumpResponse_def lift_def)
next
  assume a: "DumpResponse env r = (hdr, None) \<and> streams wb (Body r) = Some s \<and> \<not> closed s
        \<and> length (pending s) = 11 \<and> m = 10"
  then have st: "streams wb (Body r) = Some s" and m: "m = 10" by simp_all
  have pos: "0 < sint (10 :: 64 word)" by simp
  have "readBody r 10 wb = (Return ([], Some (exceeds 10)),
          wb\<lparr>streams := (streams wb)(Body r \<mapsto> s\<lparr>pending := [], closed := True\<rparr>)\<rparr>)"
    unfolding readBody_limit[OF st pos] using a by simp
  moreover have "exceeds 10 = Errorf ''webhook response body exceeds 10 bytes limit''"
    by (simp add: exceeds_def Itoa_10)
  ultimately show "DoTrace env request retries access m e
         = (Return (Some \<lparr>Request = request, RequestTrace = dump, Response = Some r,
                           ResponseTrace = hdr, ResponseBody = [],
                           StartTime = began, EndTime = ended, Retries = n\<rparr>,
                    Some (Errorf ''webhook response body exceeds 10 bytes limit'')),
            e1\<lparr>world := wb\<lparr>streams := (streams wb)(Body r \<mapsto> s\<lparr>pending := [], closed := True\<rparr>)\<rparr>\<rparr>)"
    using assms a by (simp add: DoTrace_def dumpResponse_def lift_def)
qed


lemma one_call:
  "do (test_env [Respond 200 body]) GET None None (later 1 start)
     = ((Some ok_response, 0, None), served body EOF)"
  "do (test_env [Broken 200 body]) GET None None (later 1 start)
     = ((Some ok_response, 0, None), served body (Failure ''unexpected EOF''))"
  by (simp_all add: do_def do_loop.simps doubles later_def served_def ok_response_def)

theorem DoTrace_partial_trace_witness:
  "fst (DoTrace (test_env eleven) GET None None 10 start)
     = Return (Some \<lparr>Request = GET, RequestTrace = B ''GET http://example.com/'' @ crlfcrlf,
                      Response = Some ok_response, ResponseTrace = B ''HTTP/1.1 200'' @ crlfcrlf,
                      ResponseBody = [], StartTime = 1000, EndTime = 1001, Retries = 0\<rparr>,
               Some (Errorf ''webhook response body exceeds 10 bytes limit''))
   \<and> fst (DoTrace (test_env cut_short) GET None None 0 start)
     = Return (Some \<lparr>Request = GET, RequestTrace = B ''GET http://example.com/'' @ crlfcrlf,
                      Response = Some ok_response, ResponseTrace = B ''HTTP/1.1 200'' @ crlfcrlf,
                      ResponseBody = [], StartTime = 1000, EndTime = 1001, Retries = 0\<rparr>,
               Some (Failure ''unexpected EOF''))
   \<and> fst (DoTrace no_header_env GET None None 10 start)
     = Return (Some \<lparr>Request = GET, RequestTrace = B ''GET http://example.com/'' @ crlfcrlf,
                      Response = Some ok_response, ResponseTrace = [],
                      ResponseBody = [], StartTime = 1000, EndTime = 1001, Retries = 0\<rparr>,
               Some (Failure ''short write''))"
proof -
  let ?dump = "B ''GET http://example.com/'' @ crlfcrlf"
  let ?hdr = "B ''HTTP/1.1 200'' @ crlfcrlf"
  let ?hello = "\<lparr>pending = B ''hello world'', ending = EOF, closed = False\<rparr>"
  have s: "start\<lparr>world := world (later 1 start)\<rparr> = later 1 start" by (simp add: later_def)
  have I: "Itoa 200 = ''200''" by (simp add: Itoa_def decimal.simps digit_def)
  have d: "DumpRequestOut (test_env script) GET = (?dump, None)"
    and n0: "Now (test_env script) (world start) = (1000, world (later 1 start))"
    and n1: "Now (test_env script) (world (served body x)) = (1001, world (later 1 (served body x)))"
    and h: "DumpResponse (test_env script) ok_response = (?hdr, None)"
    for script body x
    by (simp_all add: test_env_def GET_def start_def later_def served_def ok_response_def I)
  have 1: "fst (DoTrace (test_env eleven) GET None None 10 start)
     = Return (Some \<lparr>Request = GET, RequestTrace = ?dump,
                      Response = Some ok_response, ResponseTrace = ?hdr,
                      ResponseBody = [], StartTime = 1000, EndTime = 1001, Retries = 0\<rparr>,
               Some (Errorf ''webhook response body exceeds 10 bytes limit''))"
  proof -
    have r: "do (test_env eleven) GET None None (start\<lparr>world := world (later 1 start)\<rparr>)
        = ((Some ok_response, 0, None), served (B ''hello world'') EOF)"
      unfolding s eleven_def by (rule one_call)
    have st: "streams (world (later 1 (served (B ''hello world'') EOF))) (Body ok_response) = Some ?hello"
      by (simp add: later_def served_def ok_response_def)
    have len: "length (pending ?hello) = 11" by (simp add: B_def)
    from DoTrace_partial_trace[OF d n0 r n1, where m = 10 and hdr = ?hdr and s = ?hello,
        THEN conjunct2, THEN conjunct2, rule_format] h st len
    show ?thesis by simp
  qed
  have 2: "fst (DoTrace (test_env cut_short) GET None None 0 start)
     = Return (Some \<lparr>Request = GET, RequestTrace = ?dump,
                      Response = Some ok_response, ResponseTrace = ?hdr,
                      ResponseBody = [], StartTime = 1000, EndTime = 1001, Retries = 0\<rparr>,
               Some (Failure ''unexpected EOF''))"
  proof -
    have r: "do (test_env cut_short) GET None None (start\<lparr>world := world (later 1 start)\<rparr>)
        = ((Some ok_response, 0, None), served (B ''part'') (Failure ''unexpected EOF''))"
      unfolding s cut_short_def by (rule one_call)
    let ?w = "world (later 1 (served (B ''part'') (Failure ''unexpected EOF'')))"
    have rb: "readBody ok_response 0 ?w = (Return (B ''part'', Some (Failure ''unexpected EOF'')), snd (readBody ok_response 0 ?w))"
      by (simp add: readBody_eq later_def served_def ok_response_def)
    from DoTrace_partial_trace[OF d n0 r n1, where m = 0 and hdr = ?hdr,
        THEN conjunct2, THEN conjunct1, rule_format, OF conjI[OF h rb]]
    show ?thesis by simp
  qed
  have 3: "fst (DoTrace no_header_env GET None None 10 start)
     = Return (Some \<lparr>Request = GET, RequestTrace = ?dump,
                      Response = Some ok_response, ResponseTrace = [],
                      ResponseBody = [], StartTime = 1000, EndTime = 1001, Retries = 0\<rparr>,
               Some (Failure ''short write''))"
  proof -
    have d': "DumpRequestOut no_header_env GET = (?dump, None)"
      and n0': "Now no_header_env (world start) = (1000, world (later 1 start))"
      and n1': "Now no_header_env (world (served (B ''hello world'') EOF))
                 = (1001, world (later 1 (served (B ''hello world'') EOF)))"
      and h': "DumpResponse no_header_env ok_response = ([], Some (Failure ''short write''))"
      by (simp_all add: no_header_env_def test_env_def GET_def start_def later_def served_def)
    have r: "do no_header_env GET None None (start\<lparr>world := world (later 1 start)\<rparr>)
        = ((Some ok_response, 0, None), served (B ''hello world'') EOF)"
      unfolding s
      by (simp add: no_header_env_def eleven_def do_def do_loop.simps doubles later_def
            served_def ok_response_def)
    from DoTrace_partial_trace[OF d' n0' r n1', where m = 10 and hdr = "[]",
        THEN conjunct1, rule_format, OF h']
    show ?thesis by simp
  qed
  show ?thesis using 1 2 3 by blast
qed


end
